theory Spec2Isabelle
  imports Main "HOL-Library.Multiset"
begin

section \<open>The format-conversion layer of sec-certs-page (common/objformats.py)\<close>

text \<open>
  The module converts a document between four representations:
  Storage (what MongoDB holds), Working (what the site works with), Raw (paths are
  native) and Object (tagged mappings are live instances). Each conversion is a nested
  function \<^verbatim>\<open>walk\<close> that recurses over a Python value. The embedding gives the Python
  values a datatype, every \<^verbatim>\<open>walk\<close> a recursive function of the same case order, and
  every exception a value of \<open>error\<close>.
\<close>

subsection \<open>Strings and keys\<close>

text \<open>
  A Python \<^verbatim>\<open>str\<close> is a sequence of code points, and the substitute for the dot,
  the fullwidth full stop U+FF0E, is one code point (65294) that is no byte. A string is therefore a list of
  code points; \<open>ustr\<close> reads an ASCII literal.
\<close>

type_synonym ustring = "nat list"

definition ustr :: "string \<Rightarrow> ustring" where
  "ustr s = map of_char s"

definition DOT :: nat where
  "DOT = 46"

definition FULLWIDTH_DOT :: nat where
  "FULLWIDTH_DOT = 65294"

text \<open>\<^verbatim>\<open>key.replace(old, new)\<close> with one-character arguments.\<close>

definition replace :: "nat \<Rightarrow> nat \<Rightarrow> ustring \<Rightarrow> ustring" where
  "replace old new s = map (\<lambda>c. if c = old then new else c) s"

text \<open>\<^verbatim>\<open>str(key)\<close> of an integer key: its decimal form.\<close>

fun digits :: "nat \<Rightarrow> ustring" where
  "digits n = (if n < 10 then [48 + n] else digits (n div 10) @ [48 + n mod 10])"

definition str_int :: "int \<Rightarrow> ustring" where
  "str_int i = (if i < 0 then 45 # digits (nat (- i)) else digits (nat i))"

text \<open>
  The keys of a mapping: a string, a \<^verbatim>\<open>jsondiff\<close> \<^verbatim>\<open>Symbol\<close> (with its label), or an
  integer, which stands for the keys that are neither (\<^verbatim>\<open>map_key\<close> sends them through
  \<^verbatim>\<open>str\<close>).
\<close>

datatype key = KStr ustring | KSym ustring | KInt int

subsection \<open>Python values\<close>

text \<open>
  \<^item> \<open>PDate s\<close> and \<open>PPath s\<close> are a \<^verbatim>\<open>date\<close> and a \<^verbatim>\<open>Path\<close>, each held by the string
    that \<^verbatim>\<open>str\<close> returns for it.
  \<^item> \<open>PDict\<close> is a \<^verbatim>\<open>dict\<close>: its items in insertion order, keys distinct.
    \<open>PHashDict\<close> is the subclass \<^verbatim>\<open>hashdict\<close>.
  \<^item> \<open>PSet\<close> and \<open>PFrozenSet\<close> list the elements in the order in which the set iterates.
  \<^item> \<open>PObj n h fs\<close> is an instance of a \<^verbatim>\<open>ComplexSerializableType\<close>, held by what the
    conversions read of it: the name of its type, the result of \<^verbatim>\<open>hash(obj)\<close> (\<open>None\<close>
    when it raises \<^verbatim>\<open>TypeError\<close>) and the mapping that \<^verbatim>\<open>obj.to_dict()\<close> returns.
  Floats are left out of the model.
\<close>

datatype pyval =
    PNone
  | PBool bool
  | PInt int
  | PStr ustring
  | PSym ustring
  | PDate ustring
  | PPath ustring
  | PList "pyval list"
  | PDict "(key \<times> pyval) list"
  | PHashDict "(key \<times> pyval) list"
  | PSet "pyval list"
  | PFrozenSet "pyval list"
  | PObj ustring "int option" "(key \<times> pyval) list"

datatype error = KeyError | TypeError | AttributeError | DecodeError

text \<open>The first exception of a sequence of evaluations, or all their results.\<close>

fun sequence :: "(error + 'a) list \<Rightarrow> error + 'a list" where
  "sequence [] = Inr []"
| "sequence (Inl e # rs) = Inl e"
| "sequence (Inr x # rs) = (case sequence rs of Inl e \<Rightarrow> Inl e | Inr xs \<Rightarrow> Inr (x # xs))"

subsection \<open>Dictionaries\<close>

text \<open>
  \<^verbatim>\<open>d[k] = v\<close> keeps the place of a key that is present and appends a new one;
  a dict display or a loop of assignments is a fold of it; \<^verbatim>\<open>d.pop(k)\<close> removes the key.
\<close>

definition dict_set :: "('k \<times> 'v) list \<Rightarrow> 'k \<Rightarrow> 'v \<Rightarrow> ('k \<times> 'v) list" where
  "dict_set d k v =
     (if k \<in> fst ` set d then map (\<lambda>(k', v'). if k' = k then (k', v) else (k', v')) d
      else d @ [(k, v)])"

definition dict_of_items :: "('k \<times> 'v) list \<Rightarrow> ('k \<times> 'v) list" where
  "dict_of_items items = foldl (\<lambda>d (k, v). dict_set d k v) [] items"

definition dict_pop :: "('k \<times> 'v) list \<Rightarrow> 'k \<Rightarrow> ('k \<times> 'v) list" where
  "dict_pop d k = filter (\<lambda>(k', v'). k' \<noteq> k) d"

definition K_TYPE :: key where
  "K_TYPE = KStr (ustr ''_type'')"

definition K_VALUE :: key where
  "K_VALUE = KStr (ustr ''_value'')"

definition K_HASH :: key where
  "K_HASH = KStr (ustr ''_hash'')"

subsection \<open>Equality, hashing and the construction of sets\<close>

text \<open>
  Python's \<^verbatim>\<open>==\<close>: \<^verbatim>\<open>True == 1\<close>, lists are compared element by element, mappings as
  mappings whatever the order of their items (and a \<^verbatim>\<open>hashdict\<close> equals the \<^verbatim>\<open>dict\<close> of
  the same items), sets by their elements (and a \<^verbatim>\<open>set\<close> equals the \<^verbatim>\<open>frozenset\<close> of the
  same elements). Two instances are equal when their type, hash and encoded state are.
\<close>

fun py_eq :: "pyval \<Rightarrow> pyval \<Rightarrow> bool" where
  "py_eq PNone b = (b = PNone)"
| "py_eq (PBool x) b = (b = PBool x \<or> b = PInt (if x then 1 else 0))"
| "py_eq (PInt i) b = (b = PInt i \<or> (i = 1 \<and> b = PBool True) \<or> (i = 0 \<and> b = PBool False))"
| "py_eq (PStr s) b = (b = PStr s)"
| "py_eq (PSym s) b = (b = PSym s)"
| "py_eq (PDate s) b = (b = PDate s)"
| "py_eq (PPath s) b = (b = PPath s)"
| "py_eq (PList xs) b = (case b of PList ys \<Rightarrow> list_all2 py_eq xs ys | _ \<Rightarrow> False)"
| "py_eq (PDict kvs) b = (case b of
      PDict kvs' \<Rightarrow>
        list_all (\<lambda>kv. list_ex (\<lambda>kv'. fst kv = fst kv' \<and> py_eq (snd kv) (snd kv')) kvs') kvs \<and>
        list_all (\<lambda>kv'. list_ex (\<lambda>kv. fst kv = fst kv' \<and> py_eq (snd kv) (snd kv')) kvs) kvs'
    | PHashDict kvs' \<Rightarrow>
        list_all (\<lambda>kv. list_ex (\<lambda>kv'. fst kv = fst kv' \<and> py_eq (snd kv) (snd kv')) kvs') kvs \<and>
        list_all (\<lambda>kv'. list_ex (\<lambda>kv. fst kv = fst kv' \<and> py_eq (snd kv) (snd kv')) kvs) kvs'
    | _ \<Rightarrow> False)"
| "py_eq (PHashDict kvs) b = (case b of
      PDict kvs' \<Rightarrow>
        list_all (\<lambda>kv. list_ex (\<lambda>kv'. fst kv = fst kv' \<and> py_eq (snd kv) (snd kv')) kvs') kvs \<and>
        list_all (\<lambda>kv'. list_ex (\<lambda>kv. fst kv = fst kv' \<and> py_eq (snd kv) (snd kv')) kvs) kvs'
    | PHashDict kvs' \<Rightarrow>
        list_all (\<lambda>kv. list_ex (\<lambda>kv'. fst kv = fst kv' \<and> py_eq (snd kv) (snd kv')) kvs') kvs \<and>
        list_all (\<lambda>kv'. list_ex (\<lambda>kv. fst kv = fst kv' \<and> py_eq (snd kv) (snd kv')) kvs) kvs'
    | _ \<Rightarrow> False)"
| "py_eq (PSet xs) b = (case b of
      PSet ys \<Rightarrow>
        list_all (\<lambda>x. list_ex (py_eq x) ys) xs \<and> list_all (\<lambda>y. list_ex (\<lambda>x. py_eq x y) xs) ys
    | PFrozenSet ys \<Rightarrow>
        list_all (\<lambda>x. list_ex (py_eq x) ys) xs \<and> list_all (\<lambda>y. list_ex (\<lambda>x. py_eq x y) xs) ys
    | _ \<Rightarrow> False)"
| "py_eq (PFrozenSet xs) b = (case b of
      PSet ys \<Rightarrow>
        list_all (\<lambda>x. list_ex (py_eq x) ys) xs \<and> list_all (\<lambda>y. list_ex (\<lambda>x. py_eq x y) xs) ys
    | PFrozenSet ys \<Rightarrow>
        list_all (\<lambda>x. list_ex (py_eq x) ys) xs \<and> list_all (\<lambda>y. list_ex (\<lambda>x. py_eq x y) xs) ys
    | _ \<Rightarrow> False)"
| "py_eq (PObj n h fs) b = (case b of
      PObj n' h' fs' \<Rightarrow> n = n' \<and> h = h' \<and>
        list_all (\<lambda>kv. list_ex (\<lambda>kv'. fst kv = fst kv' \<and> py_eq (snd kv) (snd kv')) fs') fs \<and>
        list_all (\<lambda>kv'. list_ex (\<lambda>kv. fst kv = fst kv' \<and> py_eq (snd kv) (snd kv')) fs) fs'
    | _ \<Rightarrow> False)"

text \<open>
  \<^verbatim>\<open>hash(x)\<close> returns: lists, dicts and sets are unhashable;
  \<^verbatim>\<open>hashdict.__hash__\<close> returns \<^verbatim>\<open>self["_hash"]\<close>, which must be an integer, and
  raises \<^verbatim>\<open>TypeError("Unhashable")\<close> without the key.
\<close>

fun hashable :: "pyval \<Rightarrow> bool" where
  "hashable (PList xs) = False"
| "hashable (PDict kvs) = False"
| "hashable (PSet xs) = False"
| "hashable (PHashDict kvs) =
     (case map_of kvs K_HASH of Some (PInt h) \<Rightarrow> True | Some (PBool b) \<Rightarrow> True | _ \<Rightarrow> False)"
| "hashable (PObj n h fs) = (h \<noteq> None)"
| "hashable _ = True"

text \<open>
  Inserting into a set keeps the element already there when the new one is equal to it.
\<close>

definition dedup :: "pyval list \<Rightarrow> pyval list" where
  "dedup xs = foldl (\<lambda>acc x. if list_ex (\<lambda>a. py_eq a x) acc then acc else acc @ [x]) [] xs"

text \<open>
  The order in which a new set iterates is the implementation's: the parameter \<open>ord\<close>
  of every conversion that builds a set, applied to the elements kept.
  \<open>set_order\<close> says that \<open>ord\<close> only reorders.
\<close>

type_synonym order = "pyval list \<Rightarrow> pyval list"

definition set_order :: "order \<Rightarrow> bool" where
  "set_order ord = (\<forall>xs. mset (ord xs) = mset xs)"

text \<open>\<^verbatim>\<open>set(xs)\<close> and \<^verbatim>\<open>frozenset(xs)\<close> of a list: every element is hashed.\<close>

definition py_set :: "order \<Rightarrow> pyval list \<Rightarrow> error + pyval" where
  "py_set ord xs = (if list_all hashable xs then Inr (PSet (ord (dedup xs))) else Inl TypeError)"

definition py_frozenset :: "order \<Rightarrow> pyval list \<Rightarrow> error + pyval" where
  "py_frozenset ord xs =
     (if list_all hashable xs then Inr (PFrozenSet (ord (dedup xs))) else Inl TypeError)"

text \<open>
  \<^verbatim>\<open>set(map(walk, obj))\<close> consumes a lazy \<^verbatim>\<open>map\<close>: each element is converted and
  hashed before the next one is converted, so the first failure of either kind is the
  one raised.
\<close>

fun collect :: "(error + pyval) list \<Rightarrow> error + pyval list" where
  "collect [] = Inr []"
| "collect (Inl e # rs) = Inl e"
| "collect (Inr x # rs) =
     (if hashable x then (case collect rs of Inl e \<Rightarrow> Inl e | Inr xs \<Rightarrow> Inr (x # xs))
      else Inl TypeError)"

definition py_set_map :: "order \<Rightarrow> (error + pyval) list \<Rightarrow> error + pyval" where
  "py_set_map ord rs =
     (case collect rs of Inl e \<Rightarrow> Inl e | Inr xs \<Rightarrow> Inr (PSet (ord (dedup xs))))"

definition py_frozenset_map :: "order \<Rightarrow> (error + pyval) list \<Rightarrow> error + pyval" where
  "py_frozenset_map ord rs =
     (case collect rs of Inl e \<Rightarrow> Inl e | Inr xs \<Rightarrow> Inr (PFrozenSet (ord (dedup xs))))"

text \<open>
  Iterating a value, as \<^verbatim>\<open>set(x)\<close> and \<^verbatim>\<open>list(x)\<close> do: a list or a set gives its
  elements, a string its characters, a mapping its keys; the other values are not
  iterable.
\<close>

fun key_value :: "key \<Rightarrow> pyval" where
  "key_value (KStr s) = PStr s"
| "key_value (KSym l) = PSym l"
| "key_value (KInt i) = PInt i"

fun py_iter :: "pyval \<Rightarrow> error + pyval list" where
  "py_iter (PList xs) = Inr xs"
| "py_iter (PSet xs) = Inr xs"
| "py_iter (PFrozenSet xs) = Inr xs"
| "py_iter (PStr s) = Inr (map (\<lambda>c. PStr [c]) s)"
| "py_iter (PDict kvs) = Inr (map (key_value \<circ> fst) kvs)"
| "py_iter (PHashDict kvs) = Inr (map (key_value \<circ> fst) kvs)"
| "py_iter _ = Inl TypeError"

subsection \<open>StorageFormat\<close>

text \<open>
  \<^verbatim>\<open>key.replace("\uff0e", ".")\<close>: only a string has the method.
\<close>

fun key_restore :: "key \<Rightarrow> error + key" where
  "key_restore (KStr s) = Inr (KStr (replace FULLWIDTH_DOT DOT s))"
| "key_restore k = Inl AttributeError"

text \<open>
  \<^verbatim>\<open>StorageFormat.to_working_format\<close>. In \<^verbatim>\<open>res[key.replace(..)] = walk(obj[key])\<close>
  the right-hand side is evaluated before the key. A value that is neither a dict nor
  a list is returned as it is.
\<close>

function (sequential) StorageFormat_to_working_format :: "order \<Rightarrow> pyval \<Rightarrow> error + pyval" where
  "StorageFormat_to_working_format ord (PDict kvs) =
     (if map_of kvs K_TYPE = Some (PStr (ustr ''set'')) then
        (case map_of kvs K_VALUE of
           None \<Rightarrow> Inl KeyError
         | Some v \<Rightarrow>
            (case StorageFormat_to_working_format ord v of
               Inl e \<Rightarrow> Inl e
             | Inr r \<Rightarrow> (case py_iter r of Inl e \<Rightarrow> Inl e | Inr xs \<Rightarrow> py_set ord xs)))
      else if map_of kvs K_TYPE = Some (PStr (ustr ''frozenset'')) then
        (case map_of kvs K_VALUE of
           None \<Rightarrow> Inl KeyError
         | Some v \<Rightarrow>
            (case StorageFormat_to_working_format ord v of
               Inl e \<Rightarrow> Inl e
             | Inr r \<Rightarrow> (case py_iter r of Inl e \<Rightarrow> Inl e | Inr xs \<Rightarrow> py_frozenset ord xs)))
      else
        (case sequence (map (\<lambda>(k, v).
                 case StorageFormat_to_working_format ord v of
                   Inl e \<Rightarrow> Inl e
                 | Inr r \<Rightarrow> (case key_restore k of Inl e \<Rightarrow> Inl e | Inr k' \<Rightarrow> Inr (k', r))) kvs) of
           Inl e \<Rightarrow> Inl e
         | Inr items \<Rightarrow> Inr (PDict (dict_of_items items))))"
| "StorageFormat_to_working_format ord (PHashDict kvs) =
     (if map_of kvs K_TYPE = Some (PStr (ustr ''set'')) then
        (case map_of kvs K_VALUE of
           None \<Rightarrow> Inl KeyError
         | Some v \<Rightarrow>
            (case StorageFormat_to_working_format ord v of
               Inl e \<Rightarrow> Inl e
             | Inr r \<Rightarrow> (case py_iter r of Inl e \<Rightarrow> Inl e | Inr xs \<Rightarrow> py_set ord xs)))
      else if map_of kvs K_TYPE = Some (PStr (ustr ''frozenset'')) then
        (case map_of kvs K_VALUE of
           None \<Rightarrow> Inl KeyError
         | Some v \<Rightarrow>
            (case StorageFormat_to_working_format ord v of
               Inl e \<Rightarrow> Inl e
             | Inr r \<Rightarrow> (case py_iter r of Inl e \<Rightarrow> Inl e | Inr xs \<Rightarrow> py_frozenset ord xs)))
      else
        (case sequence (map (\<lambda>(k, v).
                 case StorageFormat_to_working_format ord v of
                   Inl e \<Rightarrow> Inl e
                 | Inr r \<Rightarrow> (case key_restore k of Inl e \<Rightarrow> Inl e | Inr k' \<Rightarrow> Inr (k', r))) kvs) of
           Inl e \<Rightarrow> Inl e
         | Inr items \<Rightarrow> Inr (PDict (dict_of_items items))))"
| "StorageFormat_to_working_format ord (PList xs) =
     (case sequence (map (StorageFormat_to_working_format ord) xs) of
        Inl e \<Rightarrow> Inl e
      | Inr ys \<Rightarrow> Inr (PList ys))"
| "StorageFormat_to_working_format ord obj = Inr obj"
  by pat_completeness auto
termination
proof -
  have pair: "\<And>(a::key) (b::pyval) kvs.
      (a, b) \<in> set kvs \<Longrightarrow> size b < Suc (size_list (size_prod (\<lambda>x. 0) size) kvs)"
    by (rule less_SucI, erule size_list_estimation) simp
  have elem: "\<And>(x::pyval) xs. x \<in> set xs \<Longrightarrow> size x < Suc (size_list size xs)"
    by (rule le_imp_less_Suc, erule size_list_estimation') simp
  show ?thesis
    by (relation "measure (\<lambda>(ord, v). size v)") (auto dest!: map_of_SomeD intro: pair elem)
qed

text \<open>
  \<^verbatim>\<open>StorageFormat.to_json_mapping\<close>. The cases are tried in the order dict, date, list.
\<close>

function (sequential) StorageFormat_to_json_mapping :: "pyval \<Rightarrow> error + pyval" where
  "StorageFormat_to_json_mapping (PDict kvs) =
     (if map_of kvs K_TYPE = Some (PStr (ustr ''set''))
         \<or> map_of kvs K_TYPE = Some (PStr (ustr ''frozenset'')) then
        (case map_of kvs K_VALUE of
           None \<Rightarrow> Inl KeyError
         | Some v \<Rightarrow>
            (case StorageFormat_to_json_mapping v of
               Inl e \<Rightarrow> Inl e
             | Inr r \<Rightarrow> (case py_iter r of Inl e \<Rightarrow> Inl e | Inr xs \<Rightarrow> Inr (PList xs))))
      else if map_of kvs K_TYPE = Some (PStr (ustr ''Path'')) then
        (case map_of kvs K_VALUE of None \<Rightarrow> Inl KeyError | Some v \<Rightarrow> Inr v)
      else
        (case sequence (map (\<lambda>(k, v).
                 case StorageFormat_to_json_mapping v of
                   Inl e \<Rightarrow> Inl e
                 | Inr r \<Rightarrow> (case key_restore k of Inl e \<Rightarrow> Inl e | Inr k' \<Rightarrow> Inr (k', r))) kvs) of
           Inl e \<Rightarrow> Inl e
         | Inr items \<Rightarrow> Inr (PDict (dict_pop (dict_of_items items) K_HASH))))"
| "StorageFormat_to_json_mapping (PHashDict kvs) =
     (if map_of kvs K_TYPE = Some (PStr (ustr ''set''))
         \<or> map_of kvs K_TYPE = Some (PStr (ustr ''frozenset'')) then
        (case map_of kvs K_VALUE of
           None \<Rightarrow> Inl KeyError
         | Some v \<Rightarrow>
            (case StorageFormat_to_json_mapping v of
               Inl e \<Rightarrow> Inl e
             | Inr r \<Rightarrow> (case py_iter r of Inl e \<Rightarrow> Inl e | Inr xs \<Rightarrow> Inr (PList xs))))
      else if map_of kvs K_TYPE = Some (PStr (ustr ''Path'')) then
        (case map_of kvs K_VALUE of None \<Rightarrow> Inl KeyError | Some v \<Rightarrow> Inr v)
      else
        (case sequence (map (\<lambda>(k, v).
                 case StorageFormat_to_json_mapping v of
                   Inl e \<Rightarrow> Inl e
                 | Inr r \<Rightarrow> (case key_restore k of Inl e \<Rightarrow> Inl e | Inr k' \<Rightarrow> Inr (k', r))) kvs) of
           Inl e \<Rightarrow> Inl e
         | Inr items \<Rightarrow> Inr (PDict (dict_pop (dict_of_items items) K_HASH))))"
| "StorageFormat_to_json_mapping (PDate s) = Inr (PStr s)"
| "StorageFormat_to_json_mapping (PList xs) =
     (case sequence (map StorageFormat_to_json_mapping xs) of
        Inl e \<Rightarrow> Inl e
      | Inr ys \<Rightarrow> Inr (PList ys))"
| "StorageFormat_to_json_mapping obj = Inr obj"
  by pat_completeness auto
termination
proof -
  have pair: "\<And>(a::key) (b::pyval) kvs.
      (a, b) \<in> set kvs \<Longrightarrow> size b < Suc (size_list (size_prod (\<lambda>x. 0) size) kvs)"
    by (rule less_SucI, erule size_list_estimation) simp
  have elem: "\<And>(x::pyval) xs. x \<in> set xs \<Longrightarrow> size x < Suc (size_list size xs)"
    by (rule le_imp_less_Suc, erule size_list_estimation') simp
  show ?thesis
    by (relation "measure size") (auto dest!: map_of_SomeD intro: pair elem)
qed

subsection \<open>WorkingFormat\<close>

fun map_key :: "key \<Rightarrow> key" where
  "map_key (KSym label) = KStr (ustr ''__'' @ label @ ustr ''__'')"
| "map_key (KInt i) = KStr (str_int i)"
| "map_key (KStr s) = (if DOT \<in> set s then KStr (replace DOT FULLWIDTH_DOT s) else KStr s)"

text \<open>
  \<^verbatim>\<open>WorkingFormat.to_storage_format\<close>: no branch of it raises.
\<close>

fun WorkingFormat_to_storage_format :: "pyval \<Rightarrow> pyval" where
  "WorkingFormat_to_storage_format (PDict kvs) =
     PDict (dict_of_items (map (\<lambda>(k, v). (map_key k, WorkingFormat_to_storage_format v)) kvs))"
| "WorkingFormat_to_storage_format (PHashDict kvs) =
     PDict (dict_of_items (map (\<lambda>(k, v). (map_key k, WorkingFormat_to_storage_format v)) kvs))"
| "WorkingFormat_to_storage_format (PList xs) = PList (map WorkingFormat_to_storage_format xs)"
| "WorkingFormat_to_storage_format (PSet xs) =
     PDict [(K_TYPE, PStr (ustr ''set'')),
            (K_VALUE, PList (map WorkingFormat_to_storage_format xs))]"
| "WorkingFormat_to_storage_format (PFrozenSet xs) =
     PDict [(K_TYPE, PStr (ustr ''frozenset'')),
            (K_VALUE, PList (map WorkingFormat_to_storage_format xs))]"
| "WorkingFormat_to_storage_format obj = obj"

definition load :: "order \<Rightarrow> pyval \<Rightarrow> error + pyval" where
  "load ord doc = StorageFormat_to_working_format ord doc"

definition store :: "pyval \<Rightarrow> pyval" where
  "store doc = WorkingFormat_to_storage_format doc"

text \<open>
  \<^verbatim>\<open>WorkingFormat.to_raw_format\<close>. \<^verbatim>\<open>Path(x)\<close> takes a string or a path and raises
  \<^verbatim>\<open>TypeError\<close> on anything else; \<open>norm s\<close> is the string form of \<^verbatim>\<open>Path(s)\<close>, the
  library's. A dict comprehension keeps the keys, so it builds the items in order.
\<close>

function (sequential) WorkingFormat_to_raw_format ::
  "(ustring \<Rightarrow> ustring) \<Rightarrow> order \<Rightarrow> pyval \<Rightarrow> error + pyval" where
  "WorkingFormat_to_raw_format norm ord (PDict kvs) =
     (if map_of kvs K_TYPE = Some (PStr (ustr ''Path'')) then
        (case map_of kvs K_VALUE of
           None \<Rightarrow> Inl KeyError
         | Some (PStr s) \<Rightarrow> Inr (PPath (norm s))
         | Some (PPath p) \<Rightarrow> Inr (PPath p)
         | Some _ \<Rightarrow> Inl TypeError)
      else
        (case sequence (map (\<lambda>(k, v).
                 case WorkingFormat_to_raw_format norm ord v of
                   Inl e \<Rightarrow> Inl e
                 | Inr r \<Rightarrow> Inr (k, r)) kvs) of
           Inl e \<Rightarrow> Inl e
         | Inr items \<Rightarrow> Inr (PDict items)))"
| "WorkingFormat_to_raw_format norm ord (PHashDict kvs) =
     (if map_of kvs K_TYPE = Some (PStr (ustr ''Path'')) then
        (case map_of kvs K_VALUE of
           None \<Rightarrow> Inl KeyError
         | Some (PStr s) \<Rightarrow> Inr (PPath (norm s))
         | Some (PPath p) \<Rightarrow> Inr (PPath p)
         | Some _ \<Rightarrow> Inl TypeError)
      else
        (case sequence (map (\<lambda>(k, v).
                 case WorkingFormat_to_raw_format norm ord v of
                   Inl e \<Rightarrow> Inl e
                 | Inr r \<Rightarrow> Inr (k, r)) kvs) of
           Inl e \<Rightarrow> Inl e
         | Inr items \<Rightarrow> Inr (PDict items)))"
| "WorkingFormat_to_raw_format norm ord (PList xs) =
     (case sequence (map (WorkingFormat_to_raw_format norm ord) xs) of
        Inl e \<Rightarrow> Inl e
      | Inr ys \<Rightarrow> Inr (PList ys))"
| "WorkingFormat_to_raw_format norm ord (PSet xs) =
     py_set_map ord (map (WorkingFormat_to_raw_format norm ord) xs)"
| "WorkingFormat_to_raw_format norm ord (PFrozenSet xs) =
     py_frozenset_map ord (map (WorkingFormat_to_raw_format norm ord) xs)"
| "WorkingFormat_to_raw_format norm ord obj = Inr obj"
  by pat_completeness auto
termination
proof -
  have pair: "\<And>(a::key) (b::pyval) kvs.
      (a, b) \<in> set kvs \<Longrightarrow> size b < Suc (size_list (size_prod (\<lambda>x. 0) size) kvs)"
    by (rule less_SucI, erule size_list_estimation) simp
  have elem: "\<And>(x::pyval) xs. x \<in> set xs \<Longrightarrow> size x < Suc (size_list size xs)"
    by (rule le_imp_less_Suc, erule size_list_estimation') simp
  show ?thesis
    by (relation "measure (\<lambda>p. size (snd (snd p)))") (auto dest!: map_of_SomeD intro: pair elem)
qed

subsection \<open>RawFormat\<close>

text \<open>
  \<^verbatim>\<open>RawFormat.to_working_format\<close>; \<open>path_hash p\<close> is \<^verbatim>\<open>hash\<close> of the path whose string
  form is \<open>p\<close>, the library's.
\<close>

function (sequential) RawFormat_to_working_format ::
  "(ustring \<Rightarrow> int) \<Rightarrow> order \<Rightarrow> pyval \<Rightarrow> error + pyval" where
  "RawFormat_to_working_format path_hash ord (PDict kvs) =
     (case sequence (map (\<lambda>(k, v).
              case RawFormat_to_working_format path_hash ord v of
                Inl e \<Rightarrow> Inl e
              | Inr r \<Rightarrow> Inr (k, r)) kvs) of
        Inl e \<Rightarrow> Inl e
      | Inr d \<Rightarrow> (if K_HASH \<in> fst ` set d then Inr (PHashDict d) else Inr (PDict d)))"
| "RawFormat_to_working_format path_hash ord (PHashDict kvs) =
     (case sequence (map (\<lambda>(k, v).
              case RawFormat_to_working_format path_hash ord v of
                Inl e \<Rightarrow> Inl e
              | Inr r \<Rightarrow> Inr (k, r)) kvs) of
        Inl e \<Rightarrow> Inl e
      | Inr d \<Rightarrow> (if K_HASH \<in> fst ` set d then Inr (PHashDict d) else Inr (PDict d)))"
| "RawFormat_to_working_format path_hash ord (PList xs) =
     (case sequence (map (RawFormat_to_working_format path_hash ord) xs) of
        Inl e \<Rightarrow> Inl e
      | Inr ys \<Rightarrow> Inr (PList ys))"
| "RawFormat_to_working_format path_hash ord (PSet xs) =
     py_set_map ord (map (RawFormat_to_working_format path_hash ord) xs)"
| "RawFormat_to_working_format path_hash ord (PFrozenSet xs) =
     py_frozenset_map ord (map (RawFormat_to_working_format path_hash ord) xs)"
| "RawFormat_to_working_format path_hash ord (PPath p) =
     Inr (PHashDict [(K_TYPE, PStr (ustr ''Path'')), (K_VALUE, PStr p),
                     (K_HASH, PInt (path_hash p))])"
| "RawFormat_to_working_format path_hash ord obj = Inr obj"
  by pat_completeness auto
termination
proof -
  have pair: "\<And>(a::key) (b::pyval) kvs.
      (a, b) \<in> set kvs \<Longrightarrow> size b < Suc (size_list (size_prod (\<lambda>x. 0) size) kvs)"
    by (rule less_SucI, erule size_list_estimation) simp
  have elem: "\<And>(x::pyval) xs. x \<in> set xs \<Longrightarrow> size x < Suc (size_list size xs)"
    by (rule le_imp_less_Suc, erule size_list_estimation') simp
  show ?thesis
    by (relation "measure (\<lambda>p. size (snd (snd p)))") (auto dest!: map_of_SomeD intro: pair elem)
qed

text \<open>
  The registry \<^verbatim>\<open>serializable_complex_types()\<close>: a dict from the name of a class to
  the class, built on the first call from \<^verbatim>\<open>ComplexSerializableType.__subclasses__()\<close>
  by a dict comprehension and kept in the global \<^verbatim>\<open>_sct\<close>. A class is given by its name
  and a descriptor; the state is the global, \<open>None\<close> before the first call.
\<close>

definition serializable_complex_types ::
  "(ustring \<times> 'c) list \<Rightarrow> (ustring \<times> 'c) list option
     \<Rightarrow> (ustring \<times> 'c) list \<times> (ustring \<times> 'c) list option" where
  "serializable_complex_types subclasses sct =
     (case sct of
        None \<Rightarrow> (let r = dict_of_items subclasses in (r, Some r))
      | Some r \<Rightarrow> (r, Some r))"

text \<open>
  \<^verbatim>\<open>RawFormat.to_obj_format\<close>. Of a class the conversion uses \<^verbatim>\<open>from_dict\<close>, so the
  registry \<open>sct\<close> holds that function under the name. \<^verbatim>\<open>res["_type"] in sct\<close> hashes
  the value of \<^verbatim>\<open>"_type"\<close>, and the keys of \<open>sct\<close> are strings.
\<close>

type_synonym decoder = "(key \<times> pyval) list \<Rightarrow> error + pyval"

function (sequential) RawFormat_to_obj_format ::
  "(ustring \<times> decoder) list \<Rightarrow> order \<Rightarrow> pyval \<Rightarrow> error + pyval" where
  "RawFormat_to_obj_format sct ord (PDict kvs) =
     (case sequence (map (\<lambda>(k, v).
              case RawFormat_to_obj_format sct ord v of
                Inl e \<Rightarrow> Inl e
              | Inr r \<Rightarrow> Inr (k, r)) kvs) of
        Inl e \<Rightarrow> Inl e
      | Inr res \<Rightarrow>
         (case map_of res K_TYPE of
            None \<Rightarrow> Inr (PDict res)
          | Some t \<Rightarrow>
             (if \<not> hashable t then Inl TypeError
              else (case t of
                 PStr complex_type \<Rightarrow>
                   (case map_of sct complex_type of
                      None \<Rightarrow> Inr (PDict res)
                    | Some from_dict \<Rightarrow> from_dict (dict_pop (dict_pop res K_TYPE) K_HASH))
               | _ \<Rightarrow> Inr (PDict res)))))"
| "RawFormat_to_obj_format sct ord (PHashDict kvs) =
     (case sequence (map (\<lambda>(k, v).
              case RawFormat_to_obj_format sct ord v of
                Inl e \<Rightarrow> Inl e
              | Inr r \<Rightarrow> Inr (k, r)) kvs) of
        Inl e \<Rightarrow> Inl e
      | Inr res \<Rightarrow>
         (case map_of res K_TYPE of
            None \<Rightarrow> Inr (PDict res)
          | Some t \<Rightarrow>
             (if \<not> hashable t then Inl TypeError
              else (case t of
                 PStr complex_type \<Rightarrow>
                   (case map_of sct complex_type of
                      None \<Rightarrow> Inr (PDict res)
                    | Some from_dict \<Rightarrow> from_dict (dict_pop (dict_pop res K_TYPE) K_HASH))
               | _ \<Rightarrow> Inr (PDict res)))))"
| "RawFormat_to_obj_format sct ord (PList xs) =
     (case sequence (map (RawFormat_to_obj_format sct ord) xs) of
        Inl e \<Rightarrow> Inl e
      | Inr ys \<Rightarrow> Inr (PList ys))"
| "RawFormat_to_obj_format sct ord (PSet xs) =
     py_set_map ord (map (RawFormat_to_obj_format sct ord) xs)"
| "RawFormat_to_obj_format sct ord (PFrozenSet xs) =
     py_frozenset_map ord (map (RawFormat_to_obj_format sct ord) xs)"
| "RawFormat_to_obj_format sct ord obj = Inr obj"
  by pat_completeness auto
termination
proof -
  have pair: "\<And>(a::key) (b::pyval) kvs.
      (a, b) \<in> set kvs \<Longrightarrow> size b < Suc (size_list (size_prod (\<lambda>x. 0) size) kvs)"
    by (rule less_SucI, erule size_list_estimation) simp
  have elem: "\<And>(x::pyval) xs. x \<in> set xs \<Longrightarrow> size x < Suc (size_list size xs)"
    by (rule le_imp_less_Suc, erule size_list_estimation') simp
  show ?thesis
    by (relation "measure (\<lambda>p. size (snd (snd p)))") (auto dest!: map_of_SomeD intro: pair elem)
qed

subsection \<open>ObjFormat\<close>

text \<open>
  \<^verbatim>\<open>ObjFormat.to_raw_format\<close>. The \<^verbatim>\<open>try\<close> block holds both \<^verbatim>\<open>hash(obj)\<close> and the walk
  of \<^verbatim>\<open>obj.to_dict()\<close>: a \<^verbatim>\<open>TypeError\<close> of either enters the \<^verbatim>\<open>except\<close> branch, which
  walks \<^verbatim>\<open>obj.to_dict()\<close> again. A dict display with \<^verbatim>\<open>**\<close> lets a later key replace
  the value of an earlier one.
\<close>

function (sequential) ObjFormat_to_raw_format :: "order \<Rightarrow> pyval \<Rightarrow> error + pyval" where
  "ObjFormat_to_raw_format ord (PObj n h fs) =
     (let to_dict = sequence (map (\<lambda>(k, v).
              case ObjFormat_to_raw_format ord v of
                Inl e \<Rightarrow> Inl e
              | Inr r \<Rightarrow> Inr (k, r)) fs);
          except =
            (case to_dict of
               Inl e \<Rightarrow> Inl e
             | Inr items \<Rightarrow> Inr (PDict (dict_of_items ((K_TYPE, PStr n) # items))))
      in case h of
           None \<Rightarrow> except
         | Some hv \<Rightarrow>
            (case to_dict of
               Inl TypeError \<Rightarrow> except
             | Inl e \<Rightarrow> Inl e
             | Inr items \<Rightarrow>
                 Inr (PHashDict (dict_of_items ((K_TYPE, PStr n) # (K_HASH, PInt hv) # items)))))"
| "ObjFormat_to_raw_format ord (PDict kvs) =
     (case sequence (map (\<lambda>(k, v).
              case ObjFormat_to_raw_format ord v of
                Inl e \<Rightarrow> Inl e
              | Inr r \<Rightarrow> Inr (k, r)) kvs) of
        Inl e \<Rightarrow> Inl e
      | Inr items \<Rightarrow> Inr (PDict items))"
| "ObjFormat_to_raw_format ord (PHashDict kvs) =
     (case sequence (map (\<lambda>(k, v).
              case ObjFormat_to_raw_format ord v of
                Inl e \<Rightarrow> Inl e
              | Inr r \<Rightarrow> Inr (k, r)) kvs) of
        Inl e \<Rightarrow> Inl e
      | Inr items \<Rightarrow> Inr (PDict items))"
| "ObjFormat_to_raw_format ord (PList xs) =
     (case sequence (map (ObjFormat_to_raw_format ord) xs) of
        Inl e \<Rightarrow> Inl e
      | Inr ys \<Rightarrow> Inr (PList ys))"
| "ObjFormat_to_raw_format ord (PSet xs) =
     py_set_map ord (map (ObjFormat_to_raw_format ord) xs)"
| "ObjFormat_to_raw_format ord (PFrozenSet xs) =
     py_frozenset_map ord (map (ObjFormat_to_raw_format ord) xs)"
| "ObjFormat_to_raw_format ord obj = Inr obj"
  by pat_completeness auto
termination
proof -
  have pair: "\<And>(a::key) (b::pyval) kvs.
      (a, b) \<in> set kvs \<Longrightarrow> size b < Suc (size_list (size_prod (\<lambda>x. 0) size) kvs)"
    by (rule less_SucI, erule size_list_estimation) simp
  have elem: "\<And>(x::pyval) xs. x \<in> set xs \<Longrightarrow> size x < Suc (size_list size xs)"
    by (rule le_imp_less_Suc, erule size_list_estimation') simp
  show ?thesis
    by (relation "measure (\<lambda>p. size (snd p))") (auto dest!: map_of_SomeD intro: pair elem)
qed

subsection \<open>Predicates of the statements\<close>

text \<open>
  A mapping that \<^verbatim>\<open>StorageFormat\<close> reads as an encoded set, and one of them without
  \<^verbatim>\<open>"_value"\<close>. \<open>visited d\<close> lists the values that the walk of
  \<^verbatim>\<open>StorageFormat.to_working_format\<close> is called on when nothing raises: the document,
  the values of a mapping that is no encoded set, the elements of a list, and the
  \<^verbatim>\<open>"_value"\<close> of an encoded set (its other fields are never read).
\<close>

definition set_tagged :: "(key \<times> pyval) list \<Rightarrow> bool" where
  "set_tagged kvs =
     (map_of kvs K_TYPE = Some (PStr (ustr ''set''))
      \<or> map_of kvs K_TYPE = Some (PStr (ustr ''frozenset'')))"

fun missing_value :: "pyval \<Rightarrow> bool" where
  "missing_value (PDict kvs) = (set_tagged kvs \<and> map_of kvs K_VALUE = None)"
| "missing_value (PHashDict kvs) = (set_tagged kvs \<and> map_of kvs K_VALUE = None)"
| "missing_value obj = False"

function (sequential) visited :: "pyval \<Rightarrow> pyval list" where
  "visited (PDict kvs) = PDict kvs #
     (if set_tagged kvs then (case map_of kvs K_VALUE of None \<Rightarrow> [] | Some v \<Rightarrow> visited v)
      else concat (map (\<lambda>(k, v). visited v) kvs))"
| "visited (PHashDict kvs) = PHashDict kvs #
     (if set_tagged kvs then (case map_of kvs K_VALUE of None \<Rightarrow> [] | Some v \<Rightarrow> visited v)
      else concat (map (\<lambda>(k, v). visited v) kvs))"
| "visited (PList xs) = PList xs # concat (map visited xs)"
| "visited obj = [obj]"
  by pat_completeness auto
termination
proof -
  have pair: "\<And>(a::key) (b::pyval) kvs.
      (a, b) \<in> set kvs \<Longrightarrow> size b < Suc (size_list (size_prod (\<lambda>x. 0) size) kvs)"
    by (rule less_SucI, erule size_list_estimation) simp
  have elem: "\<And>(x::pyval) xs. x \<in> set xs \<Longrightarrow> size x < Suc (size_list size xs)"
    by (rule le_imp_less_Suc, erule size_list_estimation') simp
  show ?thesis
    by (relation "measure size") (auto dest!: map_of_SomeD intro: pair elem)
qed

text \<open>
  A Storage-stage document: mappings with distinct string keys that hold no literal dot,
  lists, and the scalars MongoDB holds; no set, no path, no instance. A set is the
  mapping \<^verbatim>\<open>{"_type": "set" | "frozenset", "_value": [...]}\<close> of these two fields, a path
  a mapping tagged \<^verbatim>\<open>"Path"\<close> whose \<^verbatim>\<open>"_value"\<close> is a string.
\<close>

fun plain_key :: "key \<Rightarrow> bool" where
  "plain_key (KStr s) = (DOT \<notin> set s)"
| "plain_key k = False"

definition path_tagged :: "(key \<times> pyval) list \<Rightarrow> bool" where
  "path_tagged kvs = (map_of kvs K_TYPE = Some (PStr (ustr ''Path'')))"

function (sequential) storage_doc :: "pyval \<Rightarrow> bool" where
  "storage_doc (PDict kvs) =
     (distinct (map fst kvs) \<and> list_all plain_key (map fst kvs) \<and>
      (if set_tagged kvs then
         length kvs = 2 \<and>
         (case map_of kvs K_VALUE of Some (PList xs) \<Rightarrow> list_all storage_doc xs | _ \<Rightarrow> False)
       else if path_tagged kvs then
         (case map_of kvs K_VALUE of Some (PStr s) \<Rightarrow> True | _ \<Rightarrow> False) \<and>
         list_all (\<lambda>(k, v). storage_doc v) kvs
       else list_all (\<lambda>(k, v). storage_doc v) kvs))"
| "storage_doc (PList xs) = list_all storage_doc xs"
| "storage_doc PNone = True"
| "storage_doc (PBool b) = True"
| "storage_doc (PInt i) = True"
| "storage_doc (PStr s) = True"
| "storage_doc (PDate s) = True"
| "storage_doc obj = False"
  by pat_completeness auto
termination
proof -
  have pair: "\<And>(a::key) (b::pyval) kvs.
      (a, b) \<in> set kvs \<Longrightarrow> size b < Suc (size_list (size_prod (\<lambda>x. 0) size) kvs)"
    by (rule less_SucI, erule size_list_estimation) simp
  have elem: "\<And>(x::pyval) xs. x \<in> set xs \<Longrightarrow> size x < Suc (size_list size xs)"
    by (rule le_imp_less_Suc, erule size_list_estimation') simp
  have nested: "\<And>(a::key) xs kvs (x::pyval).
      (a, PList xs) \<in> set kvs \<Longrightarrow> x \<in> set xs \<Longrightarrow>
      size x < Suc (size_list (size_prod (\<lambda>x. 0) size) kvs)"
  proof -
    fix a :: key and xs kvs and x :: pyval
    assume m: "(a, PList xs) \<in> set kvs" and x: "x \<in> set xs"
    have "size (PList xs) < Suc (size_list (size_prod (\<lambda>x. 0) size) kvs)"
      using m by (rule pair)
    moreover have "size x < Suc (size_list size xs)" using x by (rule elem)
    ultimately show "size x < Suc (size_list (size_prod (\<lambda>x. 0) size) kvs)" by simp
  qed
  show ?thesis
    by (relation "measure size") (auto dest!: map_of_SomeD intro: pair elem nested)
qed

text \<open>
  What the description of \<^verbatim>\<open>StorageFormat.to_json_mapping\<close> says, written from its
  words and not from the code: an encoded set becomes the list of its converted
  elements, an encoded path its \<^verbatim>\<open>"_value"\<close>, any other mapping has the dots of its
  keys restored and the key \<^verbatim>\<open>"_hash"\<close> removed, a date becomes its string, and
  every other value stays.
\<close>

fun restore_dots :: "key \<Rightarrow> key" where
  "restore_dots (KStr s) = KStr (replace FULLWIDTH_DOT DOT s)"
| "restore_dots k = k"

function (sequential) json_spec :: "pyval \<Rightarrow> pyval" where
  "json_spec (PDict kvs) =
     (if set_tagged kvs then
        (case map_of kvs K_VALUE of Some (PList xs) \<Rightarrow> PList (map json_spec xs) | _ \<Rightarrow> PList [])
      else if path_tagged kvs then
        (case map_of kvs K_VALUE of Some v \<Rightarrow> v | None \<Rightarrow> PNone)
      else
        PDict (filter (\<lambda>(k, v). k \<noteq> K_HASH) (map (\<lambda>(k, v). (restore_dots k, json_spec v)) kvs)))"
| "json_spec (PDate s) = PStr s"
| "json_spec (PList xs) = PList (map json_spec xs)"
| "json_spec obj = obj"
  by pat_completeness auto
termination
proof -
  have pair: "\<And>(a::key) (b::pyval) kvs.
      (a, b) \<in> set kvs \<Longrightarrow> size b < Suc (size_list (size_prod (\<lambda>x. 0) size) kvs)"
    by (rule less_SucI, erule size_list_estimation) simp
  have elem: "\<And>(x::pyval) xs. x \<in> set xs \<Longrightarrow> size x < Suc (size_list size xs)"
    by (rule le_imp_less_Suc, erule size_list_estimation') simp
  have nested: "\<And>(a::key) xs kvs (x::pyval).
      (a, PList xs) \<in> set kvs \<Longrightarrow> x \<in> set xs \<Longrightarrow>
      size x < Suc (size_list (size_prod (\<lambda>x. 0) size) kvs)"
  proof -
    fix a :: key and xs kvs and x :: pyval
    assume m: "(a, PList xs) \<in> set kvs" and x: "x \<in> set xs"
    have "size (PList xs) < Suc (size_list (size_prod (\<lambda>x. 0) size) kvs)"
      using m by (rule pair)
    moreover have "size x < Suc (size_list size xs)" using x by (rule elem)
    ultimately show "size x < Suc (size_list (size_prod (\<lambda>x. 0) size) kvs)" by simp
  qed
  show ?thesis
    by (relation "measure size") (auto dest!: map_of_SomeD intro: pair elem nested)
qed

text \<open>
  No mapping in the value, at any depth below lists, mappings and sets, has a key that
  is not a string.
\<close>

fun str_key :: "key \<Rightarrow> bool" where
  "str_key (KStr s) = True"
| "str_key k = False"

fun str_keys :: "pyval \<Rightarrow> bool" where
  "str_keys (PDict kvs) = list_all (\<lambda>(k, v). str_key k \<and> str_keys v) kvs"
| "str_keys (PHashDict kvs) = list_all (\<lambda>(k, v). str_key k \<and> str_keys v) kvs"
| "str_keys (PList xs) = list_all str_keys xs"
| "str_keys (PSet xs) = list_all str_keys xs"
| "str_keys (PFrozenSet xs) = list_all str_keys xs"
| "str_keys obj = True"

text \<open>
  Two lists with the same elements up to a relation, whatever the order and the
  multiplicity, and two items of a mapping with the same key and equal values: with
  them \<open>py_eq\<close> on sets and mappings reads as it does in Python.
\<close>

definition same_elems :: "('a \<Rightarrow> 'a \<Rightarrow> bool) \<Rightarrow> 'a list \<Rightarrow> 'a list \<Rightarrow> bool" where
  "same_elems R xs ys = ((\<forall>x\<in>set xs. \<exists>y\<in>set ys. R x y) \<and> (\<forall>y\<in>set ys. \<exists>x\<in>set xs. R x y))"

definition item_eq :: "key \<times> pyval \<Rightarrow> key \<times> pyval \<Rightarrow> bool" where
  "item_eq kv kv' = (fst kv = fst kv' \<and> py_eq (snd kv) (snd kv'))"

text \<open>
  A Working-stage document that \<^verbatim>\<open>store\<close> encodes without loss: the keys are distinct
  strings without the substitute U+FF0E, no mapping is tagged \<^verbatim>\<open>"set"\<close> or
  \<^verbatim>\<open>"frozenset"\<close>, and the elements of a set are scalars or frozensets of such.
\<close>

fun encodable_key :: "key \<Rightarrow> bool" where
  "encodable_key (KStr s) = (FULLWIDTH_DOT \<notin> set s)"
| "encodable_key k = False"

fun set_elem :: "pyval \<Rightarrow> bool" where
  "set_elem PNone = True"
| "set_elem (PBool b) = True"
| "set_elem (PInt i) = True"
| "set_elem (PStr s) = True"
| "set_elem (PDate s) = True"
| "set_elem (PFrozenSet xs) = list_all set_elem xs"
| "set_elem obj = False"

fun working_doc :: "pyval \<Rightarrow> bool" where
  "working_doc (PDict kvs) =
     (distinct (map fst kvs) \<and> list_all encodable_key (map fst kvs) \<and> \<not> set_tagged kvs \<and>
      list_all (\<lambda>(k, v). working_doc v) kvs)"
| "working_doc (PHashDict kvs) =
     (distinct (map fst kvs) \<and> list_all encodable_key (map fst kvs) \<and> \<not> set_tagged kvs \<and>
      list_all (\<lambda>(k, v). working_doc v) kvs)"
| "working_doc (PList xs) = list_all working_doc xs"
| "working_doc (PSet xs) = list_all set_elem xs"
| "working_doc (PFrozenSet xs) = list_all set_elem xs"
| "working_doc PNone = True"
| "working_doc (PBool b) = True"
| "working_doc (PInt i) = True"
| "working_doc (PStr s) = True"
| "working_doc (PDate s) = True"
| "working_doc obj = False"

text \<open>
  A stored document in which every encoded set lists, under \<^verbatim>\<open>"_value"\<close>, elements that
  load to hashable values, without duplicates and in the order in which the set built
  from them iterates.
\<close>

function (sequential) canonical :: "order \<Rightarrow> pyval \<Rightarrow> bool" where
  "canonical ord (PDict kvs) =
     (if set_tagged kvs then
        (case map_of kvs K_VALUE of
           Some (PList xs) \<Rightarrow>
             list_all (canonical ord) xs \<and>
             (case sequence (map (StorageFormat_to_working_format ord) xs) of
                Inr ys \<Rightarrow> list_all hashable ys \<and> ord (dedup ys) = ys
              | Inl e \<Rightarrow> False)
         | _ \<Rightarrow> False)
      else list_all (\<lambda>(k, v). canonical ord v) kvs)"
| "canonical ord (PList xs) = list_all (canonical ord) xs"
| "canonical ord obj = True"
  by pat_completeness auto
termination
proof -
  have pair: "\<And>(a::key) (b::pyval) kvs.
      (a, b) \<in> set kvs \<Longrightarrow> size b < Suc (size_list (size_prod (\<lambda>x. 0) size) kvs)"
    by (rule less_SucI, erule size_list_estimation) simp
  have elem: "\<And>(x::pyval) xs. x \<in> set xs \<Longrightarrow> size x < Suc (size_list size xs)"
    by (rule le_imp_less_Suc, erule size_list_estimation') simp
  have nested: "\<And>(a::key) xs kvs (x::pyval).
      (a, PList xs) \<in> set kvs \<Longrightarrow> x \<in> set xs \<Longrightarrow>
      size x < Suc (size_list (size_prod (\<lambda>x. 0) size) kvs)"
  proof -
    fix a :: key and xs kvs and x :: pyval
    assume m: "(a, PList xs) \<in> set kvs" and x: "x \<in> set xs"
    have "size (PList xs) < Suc (size_list (size_prod (\<lambda>x. 0) size) kvs)"
      using m by (rule pair)
    moreover have "size x < Suc (size_list size xs)" using x by (rule elem)
    ultimately show "size x < Suc (size_list (size_prod (\<lambda>x. 0) size) kvs)" by simp
  qed
  show ?thesis
    by (relation "measure (\<lambda>p. size (snd p))") (auto dest!: map_of_SomeD intro: pair elem nested)
qed


text \<open>
  \<^verbatim>\<open>from_dict\<close> of a registered type belongs to the library, not to this module. What
  the round trip needs of it, for the one instance with tag \<open>n\<close>, hash \<open>h\<close> and
  \<^verbatim>\<open>to_dict()\<close> items \<open>fs\<close>: given items with the same keys, in the same order, and
  equal values, it returns an instance equal to that one.
\<close>

definition decodes :: "decoder \<Rightarrow> ustring \<Rightarrow> int option \<Rightarrow> (key \<times> pyval) list \<Rightarrow> bool" where
  "decodes from_dict n h fs =
     (\<forall>kvs. list_all2 item_eq kvs fs \<longrightarrow> (\<exists>x. from_dict kvs = Inr x \<and> py_eq x (PObj n h fs)))"

text \<open>
  An Object-stage document: every instance has a registered tag, its decoder rebuilds
  it, and its \<^verbatim>\<open>to_dict()\<close> has neither \<^verbatim>\<open>"_type"\<close> nor \<^verbatim>\<open>"_hash"\<close> among its distinct
  keys; a plain mapping has distinct keys and carries no registered tag under
  \<^verbatim>\<open>"_type"\<close>; the elements of a set are hashable; there is no \<^verbatim>\<open>hashdict\<close>.
\<close>

fun obj_doc :: "(ustring \<times> decoder) list \<Rightarrow> pyval \<Rightarrow> bool" where
  "obj_doc sct (PObj n h fs) =
     (distinct (map fst fs) \<and> K_TYPE \<notin> fst ` set fs \<and> K_HASH \<notin> fst ` set fs \<and>
      list_all (\<lambda>(k, v). obj_doc sct v) fs \<and>
      (case map_of sct n of None \<Rightarrow> False | Some from_dict \<Rightarrow> decodes from_dict n h fs))"
| "obj_doc sct (PDict kvs) =
     (distinct (map fst kvs) \<and>
      (case map_of kvs K_TYPE of
         None \<Rightarrow> True
       | Some (PStr n) \<Rightarrow> map_of sct n = None
       | Some _ \<Rightarrow> False) \<and>
      list_all (\<lambda>(k, v). obj_doc sct v) kvs)"
| "obj_doc sct (PList xs) = list_all (obj_doc sct) xs"
| "obj_doc sct (PSet xs) = list_all (\<lambda>x. hashable x \<and> obj_doc sct x) xs"
| "obj_doc sct (PFrozenSet xs) = list_all (\<lambda>x. hashable x \<and> obj_doc sct x) xs"
| "obj_doc sct (PHashDict kvs) = False"
| "obj_doc sct obj = True"

text \<open>
  An Object-stage document on which \<^verbatim>\<open>ObjFormat.to_raw_format\<close> is described: the
  \<^verbatim>\<open>to_dict()\<close> of an instance has distinct keys, none of them \<^verbatim>\<open>"_type"\<close> or \<^verbatim>\<open>"_hash"\<close>;
  the elements of a set are hashable; there is no \<^verbatim>\<open>hashdict\<close>.
\<close>

fun object_doc :: "pyval \<Rightarrow> bool" where
  "object_doc (PObj n h fs) =
     (distinct (map fst fs) \<and> K_TYPE \<notin> fst ` set fs \<and> K_HASH \<notin> fst ` set fs \<and>
      list_all (\<lambda>(k, v). object_doc v) fs)"
| "object_doc (PDict kvs) = list_all (\<lambda>(k, v). object_doc v) kvs"
| "object_doc (PList xs) = list_all object_doc xs"
| "object_doc (PSet xs) = list_all (\<lambda>x. hashable x \<and> object_doc x) xs"
| "object_doc (PFrozenSet xs) = list_all (\<lambda>x. hashable x \<and> object_doc x) xs"
| "object_doc (PHashDict kvs) = False"
| "object_doc obj = True"

text \<open>
  What the description of \<^verbatim>\<open>ObjFormat.to_raw_format\<close> says, written from its words and
  not from the code. An instance becomes a mapping that lists its tag under \<^verbatim>\<open>"_type"\<close>
  and then its encoded fields; when its hash \<open>hv\<close> can be computed the mapping lists
  \<^verbatim>\<open>"_hash"\<close> with \<open>hv\<close> next to the tag and is a \<^verbatim>\<open>hashdict\<close>, when it cannot the mapping
  has no \<^verbatim>\<open>"_hash"\<close> and is plain, and the tag and the encoded fields are the same in
  both. The values of a mapping, the elements of a list and the elements of a set are
  encoded in place, and every other value stays. Nothing raises.
\<close>

function (sequential) to_raw_spec :: "order \<Rightarrow> pyval \<Rightarrow> pyval" where
  "to_raw_spec ord (PObj n h fs) =
     (case h of
        Some hv \<Rightarrow> PHashDict ((K_TYPE, PStr n) # (K_HASH, PInt hv) #
                     map (\<lambda>(k, v). (k, to_raw_spec ord v)) fs)
      | None \<Rightarrow> PDict ((K_TYPE, PStr n) # map (\<lambda>(k, v). (k, to_raw_spec ord v)) fs))"
| "to_raw_spec ord (PDict kvs) = PDict (map (\<lambda>(k, v). (k, to_raw_spec ord v)) kvs)"
| "to_raw_spec ord (PHashDict kvs) = PDict (map (\<lambda>(k, v). (k, to_raw_spec ord v)) kvs)"
| "to_raw_spec ord (PList xs) = PList (map (to_raw_spec ord) xs)"
| "to_raw_spec ord (PSet xs) = PSet (ord (dedup (map (to_raw_spec ord) xs)))"
| "to_raw_spec ord (PFrozenSet xs) = PFrozenSet (ord (dedup (map (to_raw_spec ord) xs)))"
| "to_raw_spec ord obj = obj"
  by pat_completeness auto
termination
proof -
  have pair: "\<And>(a::key) (b::pyval) kvs.
      (a, b) \<in> set kvs \<Longrightarrow> size b < Suc (size_list (size_prod (\<lambda>x. 0) size) kvs)"
    by (rule less_SucI, erule size_list_estimation) simp
  have elem: "\<And>(x::pyval) xs. x \<in> set xs \<Longrightarrow> size x < Suc (size_list size xs)"
    by (rule le_imp_less_Suc, erule size_list_estimation') simp
  show ?thesis
    by (relation "measure (\<lambda>p. size (snd p))") (auto dest!: map_of_SomeD intro: pair elem)
qed

text \<open>
  The bracketed form of a \<^verbatim>\<open>Symbol\<close>: its label between double underscores.
\<close>

definition bracketed :: "ustring \<Rightarrow> ustring" where
  "bracketed label = ustr ''__'' @ label @ ustr ''__''"

text \<open>
  No two keys of a mapping, at any depth, are stored under the same string.
\<close>

fun stored_keys_distinct :: "pyval \<Rightarrow> bool" where
  "stored_keys_distinct (PDict kvs) =
     (distinct (map (\<lambda>(k, v). map_key k) kvs) \<and>
      list_all (\<lambda>(k, v). stored_keys_distinct v) kvs)"
| "stored_keys_distinct (PHashDict kvs) =
     (distinct (map (\<lambda>(k, v). map_key k) kvs) \<and>
      list_all (\<lambda>(k, v). stored_keys_distinct v) kvs)"
| "stored_keys_distinct (PList xs) = list_all stored_keys_distinct xs"
| "stored_keys_distinct (PSet xs) = list_all stored_keys_distinct xs"
| "stored_keys_distinct (PFrozenSet xs) = list_all stored_keys_distinct xs"
| "stored_keys_distinct obj = True"

text \<open>
  A Working value \<open>w\<close> and what is stored for it, place by place: a mapping is stored
  as a mapping of as many items in the same order, a list as a list of as many
  elements, a set under the \<^verbatim>\<open>"_value"\<close> of a mapping, as a list of as many elements;
  and wherever \<open>w\<close> has a \<^verbatim>\<open>Symbol\<close> as the key of an item, the stored item has its
  bracketed form as key. At every depth.
\<close>

fun bracketed_key :: "key \<Rightarrow> key \<Rightarrow> bool" where
  "bracketed_key (KSym label) k' = (k' = KStr (bracketed label))"
| "bracketed_key k k' = True"

function (sequential) symbols_bracketed :: "pyval \<Rightarrow> pyval \<Rightarrow> bool" where
  "symbols_bracketed (PDict kvs) s =
     (case s of
        PDict kvs' \<Rightarrow>
          list_all2 (\<lambda>(k, v) (k', v'). bracketed_key k k' \<and> symbols_bracketed v v') kvs kvs'
      | _ \<Rightarrow> False)"
| "symbols_bracketed (PHashDict kvs) s =
     (case s of
        PDict kvs' \<Rightarrow>
          list_all2 (\<lambda>(k, v) (k', v'). bracketed_key k k' \<and> symbols_bracketed v v') kvs kvs'
      | _ \<Rightarrow> False)"
| "symbols_bracketed (PList xs) s =
     (case s of PList ys \<Rightarrow> list_all2 symbols_bracketed xs ys | _ \<Rightarrow> False)"
| "symbols_bracketed (PSet xs) s =
     (case s of
        PDict kvs' \<Rightarrow>
          (case map_of kvs' K_VALUE of
             Some (PList ys) \<Rightarrow> list_all2 symbols_bracketed xs ys
           | _ \<Rightarrow> False)
      | _ \<Rightarrow> False)"
| "symbols_bracketed (PFrozenSet xs) s =
     (case s of
        PDict kvs' \<Rightarrow>
          (case map_of kvs' K_VALUE of
             Some (PList ys) \<Rightarrow> list_all2 symbols_bracketed xs ys
           | _ \<Rightarrow> False)
      | _ \<Rightarrow> False)"
| "symbols_bracketed obj s = True"
  by pat_completeness auto
termination
proof -
  have pair: "\<And>(a::key) (b::pyval) kvs.
      (a, b) \<in> set kvs \<Longrightarrow> size b < Suc (size_list (size_prod (\<lambda>x. 0) size) kvs)"
    by (rule less_SucI, erule size_list_estimation) simp
  have elem: "\<And>(x::pyval) xs. x \<in> set xs \<Longrightarrow> size x < Suc (size_list size xs)"
    by (rule le_imp_less_Suc, erule size_list_estimation') simp
  show ?thesis
    by (relation "measure (\<lambda>p. size (fst p))") (auto dest!: map_of_SomeD intro: pair elem)
qed

text \<open>
  The document with, at every depth, each \<^verbatim>\<open>Symbol\<close> key replaced by the string of its
  bracketed form, and nothing else changed.
\<close>

fun key_as_string :: "key \<Rightarrow> key" where
  "key_as_string (KSym label) = KStr (bracketed label)"
| "key_as_string k = k"

function (sequential) symbols_as_strings :: "pyval \<Rightarrow> pyval" where
  "symbols_as_strings (PDict kvs) =
     PDict (map (\<lambda>(k, v). (key_as_string k, symbols_as_strings v)) kvs)"
| "symbols_as_strings (PHashDict kvs) =
     PHashDict (map (\<lambda>(k, v). (key_as_string k, symbols_as_strings v)) kvs)"
| "symbols_as_strings (PList xs) = PList (map symbols_as_strings xs)"
| "symbols_as_strings (PSet xs) = PSet (map symbols_as_strings xs)"
| "symbols_as_strings (PFrozenSet xs) = PFrozenSet (map symbols_as_strings xs)"
| "symbols_as_strings obj = obj"
  by pat_completeness auto
termination
proof -
  have pair: "\<And>(a::key) (b::pyval) kvs.
      (a, b) \<in> set kvs \<Longrightarrow> size b < Suc (size_list (size_prod (\<lambda>x. 0) size) kvs)"
    by (rule less_SucI, erule size_list_estimation) simp
  have elem: "\<And>(x::pyval) xs. x \<in> set xs \<Longrightarrow> size x < Suc (size_list size xs)"
    by (rule le_imp_less_Suc, erule size_list_estimation') simp
  show ?thesis
    by (relation "measure size") (auto dest!: map_of_SomeD intro: pair elem)
qed

text \<open>
  A Working-stage document that \<^verbatim>\<open>load\<close> reads back after \<^verbatim>\<open>store\<close>: as \<open>working_doc\<close>,
  but a key is a string without the substitute U+FF0E or a \<^verbatim>\<open>Symbol\<close> whose label has
  neither a dot nor the substitute, and the keys of a mapping are still distinct once
  the \<^verbatim>\<open>Symbol\<close>s are replaced by their bracketed forms.
\<close>

fun symbol_key :: "key \<Rightarrow> bool" where
  "symbol_key (KStr s) = (FULLWIDTH_DOT \<notin> set s)"
| "symbol_key (KSym label) = (DOT \<notin> set label \<and> FULLWIDTH_DOT \<notin> set label)"
| "symbol_key (KInt i) = False"

fun symbol_doc :: "pyval \<Rightarrow> bool" where
  "symbol_doc (PDict kvs) =
     (distinct (map (\<lambda>(k, v). key_as_string k) kvs) \<and> list_all symbol_key (map fst kvs) \<and>
      \<not> set_tagged kvs \<and> list_all (\<lambda>(k, v). symbol_doc v) kvs)"
| "symbol_doc (PHashDict kvs) =
     (distinct (map (\<lambda>(k, v). key_as_string k) kvs) \<and> list_all symbol_key (map fst kvs) \<and>
      \<not> set_tagged kvs \<and> list_all (\<lambda>(k, v). symbol_doc v) kvs)"
| "symbol_doc (PList xs) = list_all symbol_doc xs"
| "symbol_doc (PSet xs) = list_all set_elem xs"
| "symbol_doc (PFrozenSet xs) = list_all set_elem xs"
| "symbol_doc PNone = True"
| "symbol_doc (PBool b) = True"
| "symbol_doc (PInt i) = True"
| "symbol_doc (PStr s) = True"
| "symbol_doc (PDate s) = True"
| "symbol_doc obj = False"
section \<open>Lemmas\<close>

lemma sequence_map_Inl:
  "x \<in> set xs \<Longrightarrow> f x = Inl e \<Longrightarrow> \<exists>e'. sequence (map f xs) = Inl e'"
proof (induction xs)
  case Nil
  then show ?case by simp
next
  case (Cons a xs)
  show ?case
  proof (cases "f a")
    case (Inl e0)
    then show ?thesis by simp
  next
    case (Inr y)
    show ?thesis
    proof (cases "x = a")
      case True
      with Cons.prems Inr show ?thesis by simp
    next
      case False
      with Cons obtain e' where "sequence (map f xs) = Inl e'" by auto
      with Inr show ?thesis by simp
    qed
  qed
qed

lemma missing_value_KeyError:
  "missing_value m \<Longrightarrow> StorageFormat_to_working_format ord m = Inl KeyError"
  by (cases m) (auto simp: set_tagged_def)

lemma visited_raises:
  "m \<in> set (visited d) \<Longrightarrow> missing_value m \<Longrightarrow> \<exists>e. StorageFormat_to_working_format ord d = Inl e"
proof (induction d rule: visited.induct)
  case (1 kvs)
  show ?case
  proof (cases "m = PDict kvs")
    case True
    with 1 show ?thesis using missing_value_KeyError by blast
  next
    case False
    show ?thesis
    proof (cases "set_tagged kvs")
      case True
      from False "1.prems"(1) True
      have "m \<in> set (case map_of kvs K_VALUE of None \<Rightarrow> [] | Some v \<Rightarrow> visited v)" by simp
      then obtain v where v: "map_of kvs K_VALUE = Some v" "m \<in> set (visited v)"
        by (cases "map_of kvs K_VALUE") auto
      with 1 True obtain e where "StorageFormat_to_working_format ord v = Inl e" by blast
      with v True show ?thesis by (auto simp: set_tagged_def)
    next
      case nt: False
      with False 1 obtain k v where kv: "(k, v) \<in> set kvs" "m \<in> set (visited v)" by auto
      with 1 nt obtain e where e: "StorageFormat_to_working_format ord v = Inl e" by blast
      let ?f = "\<lambda>(k, v). case StorageFormat_to_working_format ord v of
                   Inl e \<Rightarrow> Inl e
                 | Inr r \<Rightarrow> (case key_restore k of Inl e \<Rightarrow> Inl e | Inr k' \<Rightarrow> Inr (k', r))"
      have "?f (k, v) = Inl e" using e by simp
      with kv(1) obtain e' where "sequence (map ?f kvs) = Inl e'"
        using sequence_map_Inl[of "(k, v)" kvs ?f e] by blast
      with nt show ?thesis by (auto simp: set_tagged_def)
    qed
  qed
next
  case (2 kvs)
  show ?case
  proof (cases "m = PHashDict kvs")
    case True
    with 2 show ?thesis using missing_value_KeyError by blast
  next
    case False
    show ?thesis
    proof (cases "set_tagged kvs")
      case True
      from False "2.prems"(1) True
      have "m \<in> set (case map_of kvs K_VALUE of None \<Rightarrow> [] | Some v \<Rightarrow> visited v)" by simp
      then obtain v where v: "map_of kvs K_VALUE = Some v" "m \<in> set (visited v)"
        by (cases "map_of kvs K_VALUE") auto
      with 2 True obtain e where "StorageFormat_to_working_format ord v = Inl e" by blast
      with v True show ?thesis by (auto simp: set_tagged_def)
    next
      case nt: False
      with False 2 obtain k v where kv: "(k, v) \<in> set kvs" "m \<in> set (visited v)" by auto
      with 2 nt obtain e where e: "StorageFormat_to_working_format ord v = Inl e" by blast
      let ?f = "\<lambda>(k, v). case StorageFormat_to_working_format ord v of
                   Inl e \<Rightarrow> Inl e
                 | Inr r \<Rightarrow> (case key_restore k of Inl e \<Rightarrow> Inl e | Inr k' \<Rightarrow> Inr (k', r))"
      have "?f (k, v) = Inl e" using e by simp
      with kv(1) obtain e' where "sequence (map ?f kvs) = Inl e'"
        using sequence_map_Inl[of "(k, v)" kvs ?f e] by blast
      with nt show ?thesis by (auto simp: set_tagged_def)
    qed
  qed
next
  case (3 xs)
  show ?case
  proof (cases "m = PList xs")
    case True
    with 3 show ?thesis by simp
  next
    case False
    with 3 obtain x where x: "x \<in> set xs" "m \<in> set (visited x)" by auto
    with 3 obtain e where "StorageFormat_to_working_format ord x = Inl e" by blast
    with x(1) obtain e' where
      "sequence (map (StorageFormat_to_working_format ord) xs) = Inl e'"
      using sequence_map_Inl[of x xs "StorageFormat_to_working_format ord"] by blast
    then show ?thesis by simp
  qed
qed (auto)

subsection \<open>Dictionaries\<close>

lemma dict_of_items_snoc:
  "dict_of_items (xs @ [(k, v)]) = dict_set (dict_of_items xs) k v"
  by (simp add: dict_of_items_def)

lemma dict_of_items_Nil: "dict_of_items [] = []"
  by (simp add: dict_of_items_def)

lemma dict_set_in:
  "k \<in> fst ` set d \<Longrightarrow>
   dict_set d k v = map (\<lambda>(k', v'). if k' = k then (k', v) else (k', v')) d"
  by (simp add: dict_set_def)

lemma dict_set_notin: "k \<notin> fst ` set d \<Longrightarrow> dict_set d k v = d @ [(k, v)]"
  by (simp add: dict_set_def)

lemma map_fst_upd:
  "map fst (map (\<lambda>(k', v'). if k' = k then (k', v) else (k', v')) d) = map fst d"
  by (induction d) (simp_all add: case_prod_beta)

lemma map_of_upd:
  "map_of (map (\<lambda>(k', v'). if k' = k then (k', v) else (k', v')) d) k' =
     (if k' = k \<and> k \<in> fst ` set d then Some v else map_of d k')"
proof (induction d)
  case Nil
  then show ?case by simp
next
  case (Cons a d)
  obtain ka va where a: "a = (ka, va)" by (cases a)
  show ?case using Cons a by (cases "ka = k"; cases "k' = k"; simp)
qed

lemma map_of_append_notin:
  "map_of (d @ [(k, v)]) k' = (if k' = k \<and> k \<notin> fst ` set d then Some v else map_of d k')"
proof (induction d)
  case Nil
  then show ?case by simp
next
  case (Cons a d)
  obtain ka va where a: "a = (ka, va)" by (cases a)
  show ?case using Cons a by (cases "ka = k"; cases "k' = k"; simp)
qed

lemma map_fst_dict_set:
  "map fst (dict_set d k v) = (if k \<in> fst ` set d then map fst d else map fst d @ [k])"
proof (cases "k \<in> fst ` set d")
  case True
  then show ?thesis using dict_set_in[OF True, of v] map_fst_upd[of k v d] by simp
next
  case False
  then show ?thesis using dict_set_notin[OF False, of v] by simp
qed

lemma keys_dict_set: "fst ` set (dict_set d k v) = insert k (fst ` set d)"
proof -
  have "set (map fst (dict_set d k v)) = insert k (set (map fst d))"
    unfolding map_fst_dict_set by (cases "k \<in> fst ` set d") (simp_all add: insert_absorb)
  then show ?thesis by simp
qed

lemma distinct_dict_set:
  "distinct (map fst d) \<Longrightarrow> distinct (map fst (dict_set d k v))"
  by (simp add: map_fst_dict_set)

lemma map_of_dict_set:
  "map_of (dict_set d k v) k' = (if k' = k then Some v else map_of d k')"
proof (cases "k \<in> fst ` set d")
  case True
  then show ?thesis using dict_set_in[OF True, of v] map_of_upd[of k v d k'] by simp
next
  case False
  then show ?thesis using dict_set_notin[OF False, of v] map_of_append_notin[of d k v k'] by simp
qed

lemma upd_same:
  "distinct (map fst d) \<Longrightarrow> map_of d k = Some v \<Longrightarrow>
   map (\<lambda>(k', v'). if k' = k then (k', v) else (k', v')) d = d"
proof (induction d)
  case Nil
  then show ?case by simp
next
  case (Cons a d)
  obtain ka va where a: "a = (ka, va)" by (cases a)
  show ?case
  proof (cases "ka = k")
    case True
    with Cons.prems a have v: "va = v" and notin: "k \<notin> fst ` set d" by auto
    have "\<And>x. x \<in> set d \<Longrightarrow> (\<lambda>(k', v'). if k' = k then (k', v) else (k', v')) x = x"
      using notin by (auto simp: image_iff)
    then have "map (\<lambda>(k', v'). if k' = k then (k', v) else (k', v')) d = d"
      by (simp add: map_idI)
    with True a v show ?thesis by simp
  next
    case False
    with Cons a show ?thesis by simp
  qed
qed

lemma dict_set_same:
  "distinct (map fst d) \<Longrightarrow> map_of d k = Some v \<Longrightarrow> dict_set d k v = d"
proof -
  assume d: "distinct (map fst d)" and m: "map_of d k = Some v"
  from m have "k \<in> fst ` set d" by (metis domI dom_map_of_conv_image_fst)
  with d m show ?thesis by (simp add: dict_set_in upd_same)
qed

lemma keys_dict_of_items: "fst ` set (dict_of_items xs) = fst ` set xs"
proof (induction xs rule: rev_induct)
  case Nil
  then show ?case by (simp add: dict_of_items_Nil)
next
  case (snoc a xs)
  obtain k v where a: "a = (k, v)" by (cases a)
  with snoc show ?case by (simp add: dict_of_items_snoc keys_dict_set)
qed

lemma distinct_dict_of_items: "distinct (map fst (dict_of_items xs))"
proof (induction xs rule: rev_induct)
  case Nil
  then show ?case by (simp add: dict_of_items_Nil)
next
  case (snoc a xs)
  obtain k v where a: "a = (k, v)" by (cases a)
  with snoc show ?case by (simp add: dict_of_items_snoc distinct_dict_set)
qed

lemma map_of_dict_of_items: "map_of (dict_of_items xs) k = map_of (rev xs) k"
proof (induction xs rule: rev_induct)
  case Nil
  then show ?case by (simp add: dict_of_items_Nil)
next
  case (snoc a xs)
  obtain k' v where a: "a = (k', v)" by (cases a)
  with snoc show ?case by (simp add: dict_of_items_snoc map_of_dict_set)
qed

lemma dict_of_items_distinct:
  "distinct (map fst xs) \<Longrightarrow> dict_of_items xs = xs"
proof (induction xs rule: rev_induct)
  case Nil
  then show ?case by (simp add: dict_of_items_Nil)
next
  case (snoc a xs)
  obtain k v where a: "a = (k, v)" by (cases a)
  from snoc a have "dict_of_items xs = xs" "k \<notin> fst ` set xs" by auto
  with a show ?case by (simp add: dict_of_items_snoc dict_set_notin)
qed

lemma dict_pop_upd:
  "dict_pop (map (\<lambda>(k', v'). if k' = ka then (k', v) else (k', v')) d) k =
     (if ka = k then dict_pop d k
      else map (\<lambda>(k', v'). if k' = ka then (k', v) else (k', v')) (dict_pop d k))"
proof (induction d)
  case Nil
  then show ?case by (simp add: dict_pop_def)
next
  case (Cons a d)
  obtain kb vb where a: "a = (kb, vb)" by (cases a)
  show ?case using Cons a unfolding dict_pop_def
    by (cases "ka = k"; cases "kb = ka"; cases "kb = k"; simp)
qed

lemma keys_dict_pop: "fst ` set (dict_pop d k) = fst ` set d - {k}"
  by (auto simp: dict_pop_def image_iff)

lemma dict_pop_dict_set:
  "dict_pop (dict_set d k' v) k =
     (if k' = k then dict_pop d k else dict_set (dict_pop d k) k' v)"
proof (cases "k' \<in> fst ` set d")
  case True
  then have "k' \<noteq> k \<Longrightarrow> k' \<in> fst ` set (dict_pop d k)" by (simp add: keys_dict_pop)
  with True show ?thesis by (simp add: dict_set_in dict_pop_upd)
next
  case False
  then have n: "k' \<notin> fst ` set (dict_pop d k)" by (simp add: keys_dict_pop)
  from False have "dict_set d k' v = d @ [(k', v)]" by (rule dict_set_notin)
  moreover have "k' \<noteq> k \<Longrightarrow> dict_set (dict_pop d k) k' v = dict_pop d k @ [(k', v)]"
    using n by (simp add: dict_set_notin)
  ultimately show ?thesis by (simp add: dict_pop_def)
qed

lemma dict_pop_dict_of_items:
  "dict_pop (dict_of_items xs) k = dict_of_items (filter (\<lambda>(k', v'). k' \<noteq> k) xs)"
proof (induction xs rule: rev_induct)
  case Nil
  then show ?case by (simp add: dict_of_items_Nil dict_pop_def)
next
  case (snoc a xs)
  obtain k' v where a: "a = (k', v)" by (cases a)
  with snoc show ?case by (simp add: dict_of_items_snoc dict_pop_dict_set)
qed

lemma map_of_dict_pop: "map_of (dict_pop d k) k' = (if k' = k then None else map_of d k')"
proof (induction d)
  case Nil
  then show ?case by (simp add: dict_pop_def)
next
  case (Cons a d)
  obtain ka va where a: "a = (ka, va)" by (cases a)
  show ?case using Cons a unfolding dict_pop_def by (cases "ka = k"; cases "k' = k"; simp)
qed

lemma dict_pop_absent: "k \<notin> fst ` set d \<Longrightarrow> dict_pop d k = d"
proof -
  assume "k \<notin> fst ` set d"
  then have "\<And>x. x \<in> set d \<Longrightarrow> (case x of (k', v') \<Rightarrow> k' \<noteq> k)" by (auto simp: image_iff)
  then show ?thesis unfolding dict_pop_def by (simp add: filter_id_conv)
qed

lemma K_neq [simp]:
  "K_TYPE \<noteq> K_HASH" "K_HASH \<noteq> K_TYPE" "K_TYPE \<noteq> K_VALUE" "K_VALUE \<noteq> K_TYPE"
  "K_HASH \<noteq> K_VALUE" "K_VALUE \<noteq> K_HASH"
  by (simp_all add: K_TYPE_def K_HASH_def K_VALUE_def ustr_def)

subsection \<open>Sequences of results and the fields of an instance\<close>

lemma sequence_map_Inr:
  "(\<And>x. x \<in> set xs \<Longrightarrow> f x = Inr (g x)) \<Longrightarrow> sequence (map f xs) = Inr (map g xs)"
  by (induction xs) simp_all

lemma sequence_map_Inr_iff:
  "sequence (map f xs) = Inr ys \<Longrightarrow> list_all2 (\<lambda>x y. f x = Inr y) xs ys"
proof (induction xs arbitrary: ys)
  case Nil
  then show ?case by simp
next
  case (Cons a xs)
  from Cons.prems obtain y where y: "f a = Inr y" by (cases "f a") auto
  with Cons.prems obtain rest where r: "sequence (map f xs) = Inr rest" "ys = y # rest"
    by (cases "sequence (map f xs)") auto
  with Cons.IH y show ?case by simp
qed

lemma obj_to_raw_unhashable:
  "ObjFormat_to_raw_format ord (PObj n None fs) =
     (case sequence (map (\<lambda>(k, v).
              case ObjFormat_to_raw_format ord v of
                Inl e \<Rightarrow> Inl e
              | Inr r \<Rightarrow> Inr (k, r)) fs) of
        Inl e \<Rightarrow> Inl e
      | Inr items \<Rightarrow> Inr (PDict (dict_of_items ((K_TYPE, PStr n) # items))))"
  by (simp add: Let_def)

lemma obj_to_raw_hashable:
  "ObjFormat_to_raw_format ord (PObj n (Some hv) fs) =
     (case sequence (map (\<lambda>(k, v).
              case ObjFormat_to_raw_format ord v of
                Inl e \<Rightarrow> Inl e
              | Inr r \<Rightarrow> Inr (k, r)) fs) of
        Inl e \<Rightarrow> Inl e
      | Inr items \<Rightarrow>
          Inr (PHashDict (dict_of_items ((K_TYPE, PStr n) # (K_HASH, PInt hv) # items))))"
proof (cases "sequence (map (\<lambda>(k, v).
              case ObjFormat_to_raw_format ord v of
                Inl e \<Rightarrow> Inl e
              | Inr r \<Rightarrow> Inr (k, r)) fs)")
  case (Inl e)
  then show ?thesis by (cases e) (simp_all add: Let_def)
next
  case (Inr items)
  then show ?thesis by (simp add: Let_def)
qed

lemma fields_keys:
  "sequence (map (\<lambda>(k, v). case f v of Inl e \<Rightarrow> Inl e | Inr r \<Rightarrow> Inr (k, r)) kvs) = Inr items
     \<Longrightarrow> map fst items = map fst kvs"
proof (induction kvs arbitrary: items)
  case Nil
  then show ?case by simp
next
  case (Cons a kvs)
  obtain k v where a: "a = (k, v)" by (cases a)
  with Cons.prems obtain r where r: "f v = Inr r" by (cases "f v") auto
  with Cons.prems a obtain rest where
    "sequence (map (\<lambda>(k, v). case f v of Inl e \<Rightarrow> Inl e | Inr r \<Rightarrow> Inr (k, r)) kvs) = Inr rest"
    "items = (k, r) # rest"
    by (cases "sequence (map (\<lambda>(k, v). case f v of Inl e \<Rightarrow> Inl e | Inr r \<Rightarrow> Inr (k, r)) kvs)") auto
  with Cons.IH a show ?case by simp
qed

lemma fields_return:
  assumes "\<And>k v. (k, v) \<in> set kvs \<Longrightarrow> \<exists>r. f v = Inr r"
  shows "\<exists>items. sequence (map (\<lambda>(k, v). case f v of Inl e \<Rightarrow> Inl e | Inr r \<Rightarrow> Inr (k, r)) kvs)
           = Inr items"
proof -
  let ?F = "\<lambda>(k, v). case f v of Inl e \<Rightarrow> Inl e | Inr r \<Rightarrow> Inr (k, r)"
  let ?G = "\<lambda>(k, v). (k, projr (f v))"
  have "\<And>x. x \<in> set kvs \<Longrightarrow> ?F x = Inr (?G x)"
  proof -
    fix x assume x: "x \<in> set kvs"
    obtain k v where kv: "x = (k, v)" by (cases x)
    with x assms obtain r where "f v = Inr r" by blast
    with kv show "?F x = Inr (?G x)" by simp
  qed
  then have "sequence (map ?F kvs) = Inr (map ?G kvs)" by (rule sequence_map_Inr)
  then show ?thesis by blast
qed

lemma hash_in_literal:
  assumes "K_HASH \<notin> fst ` set items"
  shows "map_of (dict_of_items ((K_TYPE, a) # (K_HASH, h) # items)) K_HASH = Some h"
    and "dict_pop (dict_of_items ((K_TYPE, a) # (K_HASH, h) # items)) K_HASH
           = dict_of_items ((K_TYPE, a) # items)"
proof -
  have f: "filter (\<lambda>(k', v'). k' \<noteq> K_HASH) items = items"
    using assms by (auto simp: filter_id_conv image_iff)
  have "map_of (rev items) K_HASH = None"
    using assms by (simp add: map_of_eq_None_iff)
  then show "map_of (dict_of_items ((K_TYPE, a) # (K_HASH, h) # items)) K_HASH = Some h"
    by (simp add: map_of_dict_of_items map_add_def)
  show "dict_pop (dict_of_items ((K_TYPE, a) # (K_HASH, h) # items)) K_HASH
           = dict_of_items ((K_TYPE, a) # items)"
    by (simp add: dict_pop_dict_of_items f)
qed

subsection \<open>The JSON view of a stored document\<close>

lemma replace_restore_inj:
  "DOT \<notin> set s \<Longrightarrow> DOT \<notin> set t \<Longrightarrow>
   replace FULLWIDTH_DOT DOT s = replace FULLWIDTH_DOT DOT t \<Longrightarrow> s = t"
proof (induction s arbitrary: t)
  case Nil
  then show ?case by (simp add: replace_def)
next
  case (Cons a s)
  from Cons.prems(3) obtain b t' where t: "t = b # t'"
    by (cases t) (simp_all add: replace_def)
  with Cons.prems have ab: "(if a = FULLWIDTH_DOT then DOT else a) = (if b = FULLWIDTH_DOT then DOT else b)"
    and rest: "replace FULLWIDTH_DOT DOT s = replace FULLWIDTH_DOT DOT t'"
    and na: "a \<noteq> DOT" and nb: "b \<noteq> DOT" and ns: "DOT \<notin> set s" and nt: "DOT \<notin> set t'"
    by (auto simp: replace_def)
  from ab na nb have "a = b" by (auto split: if_splits)
  moreover from Cons.IH[OF ns nt rest] have "s = t'" .
  ultimately show ?case using t by simp
qed

lemma key_restore_plain:
  "plain_key k \<Longrightarrow> key_restore k = Inr (restore_dots k)"
  by (cases k) simp_all

lemma restore_dots_inj:
  "plain_key k \<Longrightarrow> plain_key k' \<Longrightarrow> restore_dots k = restore_dots k' \<Longrightarrow> k = k'"
  by (cases k; cases k') (auto dest: replace_restore_inj)

lemma distinct_restore:
  "distinct ks \<Longrightarrow> list_all plain_key ks \<Longrightarrow> distinct (map restore_dots ks)"
proof (induction ks)
  case Nil
  then show ?case by simp
next
  case (Cons k ks)
  then have "restore_dots k \<notin> restore_dots ` set ks"
    by (auto simp: list_all_iff dest: restore_dots_inj)
  with Cons show ?case by simp
qed

lemma json_items:
  assumes d: "distinct (map fst kvs)" and p: "list_all plain_key (map fst kvs)"
    and ih: "\<And>k v. (k, v) \<in> set kvs \<Longrightarrow> StorageFormat_to_json_mapping v = Inr (json_spec v)"
  shows "(case sequence (map (\<lambda>(k, v).
                 case StorageFormat_to_json_mapping v of
                   Inl e \<Rightarrow> Inl e
                 | Inr r \<Rightarrow> (case key_restore k of Inl e \<Rightarrow> Inl e | Inr k' \<Rightarrow> Inr (k', r))) kvs) of
           Inl e \<Rightarrow> Inl e
         | Inr items \<Rightarrow> Inr (PDict (dict_pop (dict_of_items items) K_HASH)))
       = Inr (PDict (filter (\<lambda>(k, v). k \<noteq> K_HASH)
                      (map (\<lambda>(k, v). (restore_dots k, json_spec v)) kvs)))"
proof -
  let ?F = "\<lambda>(k, v). case StorageFormat_to_json_mapping v of
                   Inl e \<Rightarrow> Inl e
                 | Inr r \<Rightarrow> (case key_restore k of Inl e \<Rightarrow> Inl e | Inr k' \<Rightarrow> Inr (k', r))"
  let ?G = "\<lambda>(k, v). (restore_dots k, json_spec v)"
  have "\<And>x. x \<in> set kvs \<Longrightarrow> ?F x = Inr (?G x)"
  proof -
    fix x assume x: "x \<in> set kvs"
    obtain k v where kv: "x = (k, v)" by (cases x)
    from x kv p have "plain_key k" by (force simp: list_all_iff)
    then have "key_restore k = Inr (restore_dots k)" by (rule key_restore_plain)
    moreover from x kv ih have "StorageFormat_to_json_mapping v = Inr (json_spec v)" by blast
    ultimately show "?F x = Inr (?G x)" using kv by simp
  qed
  then have s: "sequence (map ?F kvs) = Inr (map ?G kvs)" by (rule sequence_map_Inr)
  have "map fst (map ?G kvs) = map restore_dots (map fst kvs)"
    by (induction kvs) (simp_all add: case_prod_beta)
  with d p have "distinct (map fst (map ?G kvs))" by (simp only: distinct_restore)
  then have "dict_of_items (map ?G kvs) = map ?G kvs" by (rule dict_of_items_distinct)
  with s show ?thesis by (simp only: sum.case dict_pop_def)
qed

lemma json_refines:
  "storage_doc d \<Longrightarrow> StorageFormat_to_json_mapping d = Inr (json_spec d)"
proof (induction d rule: json_spec.induct)
  case (1 kvs)
  from "1.prems" have d: "distinct (map fst kvs)" and p: "list_all plain_key (map fst kvs)"
    by simp_all
  show ?case
  proof (cases "set_tagged kvs")
    case True
    with "1.prems" obtain xs where v: "map_of kvs K_VALUE = Some (PList xs)"
      and xs: "list_all storage_doc xs"
      by (auto split: option.splits pyval.splits)
    have "\<And>x. x \<in> set xs \<Longrightarrow> StorageFormat_to_json_mapping x = Inr (json_spec x)"
      using "1.IH"(1)[OF True v] xs by (simp add: list_all_iff)
    then have "sequence (map StorageFormat_to_json_mapping xs) = Inr (map json_spec xs)"
      by (rule sequence_map_Inr)
    with True v show ?thesis by (simp add: set_tagged_def)
  next
    case nt: False
    show ?thesis
    proof (cases "path_tagged kvs")
      case True
      with nt "1.prems" obtain s where "map_of kvs K_VALUE = Some (PStr s)"
        by (auto split: option.splits pyval.splits)
      with nt True show ?thesis by (simp add: set_tagged_def path_tagged_def)
    next
      case np: False
      from nt np "1.prems" have vs: "list_all (\<lambda>(k, v). storage_doc v) kvs" by simp
      have ih: "\<And>k v. (k, v) \<in> set kvs \<Longrightarrow> StorageFormat_to_json_mapping v = Inr (json_spec v)"
      proof -
        fix k v assume kv: "(k, v) \<in> set kvs"
        with vs have "storage_doc v" by (force simp: list_all_iff)
        with "1.IH"(2)[OF nt np kv] show "StorageFormat_to_json_mapping v = Inr (json_spec v)"
          by simp
      qed
      from nt np json_items[OF d p ih] show ?thesis
        by (simp add: set_tagged_def path_tagged_def)
    qed
  qed
next
  case (3 xs)
  then have "\<And>x. x \<in> set xs \<Longrightarrow> StorageFormat_to_json_mapping x = Inr (json_spec x)"
    by (simp add: list_all_iff)
  then have "sequence (map StorageFormat_to_json_mapping xs) = Inr (map json_spec xs)"
    by (rule sequence_map_Inr)
  then show ?case by simp
qed simp_all

subsection \<open>Keys of stored and loaded documents\<close>

lemma pyval_induct2 [case_names Dict HashDict List Set FrozenSet Obj None Bool Int Str Sym Date Path]:
  assumes "\<And>kvs. (\<And>k v. (k, v) \<in> set kvs \<Longrightarrow> P v) \<Longrightarrow> P (PDict kvs)"
    and "\<And>kvs. (\<And>k v. (k, v) \<in> set kvs \<Longrightarrow> P v) \<Longrightarrow> P (PHashDict kvs)"
    and "\<And>xs. (\<And>x. x \<in> set xs \<Longrightarrow> P x) \<Longrightarrow> P (PList xs)"
    and "\<And>xs. (\<And>x. x \<in> set xs \<Longrightarrow> P x) \<Longrightarrow> P (PSet xs)"
    and "\<And>xs. (\<And>x. x \<in> set xs \<Longrightarrow> P x) \<Longrightarrow> P (PFrozenSet xs)"
    and "\<And>n h fs. (\<And>k v. (k, v) \<in> set fs \<Longrightarrow> P v) \<Longrightarrow> P (PObj n h fs)"
    and "P PNone" and "\<And>b. P (PBool b)" and "\<And>i. P (PInt i)" and "\<And>s. P (PStr s)"
    and "\<And>s. P (PSym s)" and "\<And>s. P (PDate s)" and "\<And>s. P (PPath s)"
  shows "P x"
proof (induction x)
  case (PDict kvs)
  show ?case
  proof (rule assms(1))
    fix k v assume "(k, v) \<in> set kvs"
    then show "P v" using PDict[of "(k, v)" v] by simp
  qed
next
  case (PHashDict kvs)
  show ?case
  proof (rule assms(2))
    fix k v assume "(k, v) \<in> set kvs"
    then show "P v" using PHashDict[of "(k, v)" v] by simp
  qed
next
  case (PObj n h fs)
  show ?case
  proof (rule assms(6))
    fix k v assume "(k, v) \<in> set fs"
    then show "P v" using PObj[of "(k, v)" v] by simp
  qed
qed (auto intro: assms)

lemma map_key_str: "str_key (map_key k)"
  by (cases k) simp_all

lemma set_upd_subset:
  "set (map (\<lambda>(k', v'). if k' = k then (k', v) else (k', v')) d) \<subseteq> insert (k, v) (set d)"
  by (induction d) (auto split: if_splits)

lemma set_dict_set: "set (dict_set d k v) \<subseteq> insert (k, v) (set d)"
proof (cases "k \<in> fst ` set d")
  case True
  then show ?thesis using dict_set_in[OF True, of v] set_upd_subset[of k v d] by simp
next
  case False
  then show ?thesis using dict_set_notin[OF False, of v] by auto
qed

lemma set_dict_of_items: "set (dict_of_items xs) \<subseteq> set xs"
proof (induction xs rule: rev_induct)
  case Nil
  then show ?case by (simp add: dict_of_items_Nil)
next
  case (snoc a xs)
  obtain k v where a: "a = (k, v)" by (cases a)
  have "set (dict_of_items (xs @ [a])) \<subseteq> insert (k, v) (set (dict_of_items xs))"
    unfolding a dict_of_items_snoc by (rule set_dict_set)
  with snoc a show ?case by auto
qed

lemma str_keys_dict_of_items:
  "list_all (\<lambda>(k, v). str_key k \<and> str_keys v) items \<Longrightarrow>
   list_all (\<lambda>(k, v). str_key k \<and> str_keys v) (dict_of_items items)"
  using set_dict_of_items[of items] by (auto simp: list_all_iff)

lemma str_keys_store: "str_keys (WorkingFormat_to_storage_format w)"
proof (induction w rule: WorkingFormat_to_storage_format.induct)
  case (1 kvs)
  have "list_all (\<lambda>(k, v). str_key k \<and> str_keys v)
          (map (\<lambda>(k, v). (map_key k, WorkingFormat_to_storage_format v)) kvs)"
    using 1 by (auto simp: list_all_iff map_key_str)
  then show ?case by (simp add: str_keys_dict_of_items)
next
  case (2 kvs)
  have "list_all (\<lambda>(k, v). str_key k \<and> str_keys v)
          (map (\<lambda>(k, v). (map_key k, WorkingFormat_to_storage_format v)) kvs)"
    using 2 by (auto simp: list_all_iff map_key_str)
  then show ?case by (simp add: str_keys_dict_of_items)
next
  case (3 xs)
  then show ?case by (simp add: list_all_iff)
next
  case (4 xs)
  then show ?case by (simp add: list_all_iff K_TYPE_def K_VALUE_def)
next
  case (5 xs)
  then show ?case by (simp add: list_all_iff K_TYPE_def K_VALUE_def)
qed simp_all

lemma set_dedup_step:
  "set (foldl (\<lambda>acc x. if list_ex (\<lambda>a. py_eq a x) acc then acc else acc @ [x]) acc xs)
     \<subseteq> set acc \<union> set xs"
proof (induction xs arbitrary: acc)
  case Nil
  then show ?case by simp
next
  case (Cons x xs)
  show ?case using Cons[of "if list_ex (\<lambda>a. py_eq a x) acc then acc else acc @ [x]"]
    by (auto split: if_splits)
qed

lemma set_dedup: "set (dedup xs) \<subseteq> set xs"
  using set_dedup_step[of "[]" xs] by (simp add: dedup_def)

lemma set_order_set: "set_order ord \<Longrightarrow> set (ord xs) = set xs"
  by (metis set_order_def mset_eq_setD)

lemma set_ord_dedup: "set_order ord \<Longrightarrow> set (ord (dedup xs)) \<subseteq> set xs"
  using set_dedup[of xs] by (simp add: set_order_set)

lemma str_keys_py_set:
  assumes "set_order ord" and "list_all str_keys xs" and "py_set ord xs = Inr w"
  shows "str_keys w"
proof -
  from assms(3) have w: "w = PSet (ord (dedup xs))" by (auto simp: py_set_def split: if_splits)
  from assms(2) set_ord_dedup[OF assms(1), of xs] have "list_all str_keys (ord (dedup xs))"
    unfolding list_all_iff by blast
  with w show ?thesis by simp
qed

lemma str_keys_py_frozenset:
  assumes "set_order ord" and "list_all str_keys xs" and "py_frozenset ord xs = Inr w"
  shows "str_keys w"
proof -
  from assms(3) have w: "w = PFrozenSet (ord (dedup xs))"
    by (auto simp: py_frozenset_def split: if_splits)
  from assms(2) set_ord_dedup[OF assms(1), of xs] have "list_all str_keys (ord (dedup xs))"
    unfolding list_all_iff by blast
  with w show ?thesis by simp
qed

lemma str_keys_key_value: "str_keys (key_value k)"
  by (cases k) simp_all

lemma str_keys_py_iter: "str_keys r \<Longrightarrow> py_iter r = Inr xs \<Longrightarrow> list_all str_keys xs"
  by (cases r) (auto simp: list_all_iff str_keys_key_value)

lemma key_restore_str: "key_restore k = Inr k' \<Longrightarrow> str_key k'"
  by (cases k) auto


lemma sequence_elems:
  "sequence (map f xs) = Inr ys \<Longrightarrow> y \<in> set ys \<Longrightarrow> \<exists>x\<in>set xs. f x = Inr y"
proof -
  assume s: "sequence (map f xs) = Inr ys" and y: "y \<in> set ys"
  from s have "list_all2 (\<lambda>x y. f x = Inr y) xs ys" by (rule sequence_map_Inr_iff)
  then show ?thesis using y by (induction rule: list_all2_induct) auto
qed

lemma load_items_str_keys:
  assumes ih: "\<And>k v w. (k, v) \<in> set kvs \<Longrightarrow> f v = Inr w \<Longrightarrow> str_keys w"
    and s: "sequence (map (\<lambda>(k, v).
                 case f v of
                   Inl e \<Rightarrow> Inl e
                 | Inr r \<Rightarrow> (case key_restore k of Inl e \<Rightarrow> Inl e | Inr k' \<Rightarrow> Inr (k', r))) kvs)
              = Inr items"
  shows "list_all (\<lambda>(k, v). str_key k \<and> str_keys v) items"
proof -
  have "\<And>y. y \<in> set items \<Longrightarrow> (case y of (k, v) \<Rightarrow> str_key k \<and> str_keys v)"
  proof -
    fix y assume "y \<in> set items"
    from sequence_elems[OF s this] obtain x where x: "x \<in> set kvs"
      and fx: "(case x of (k, v) \<Rightarrow> case f v of
                   Inl e \<Rightarrow> Inl e
                 | Inr r \<Rightarrow> (case key_restore k of Inl e \<Rightarrow> Inl e | Inr k' \<Rightarrow> Inr (k', r))) = Inr y"
      by blast
    obtain k v where kv: "x = (k, v)" by (cases x)
    from fx kv obtain r where r: "f v = Inr r" by (cases "f v") auto
    with fx kv obtain k' where k': "key_restore k = Inr k'" "y = (k', r)"
      by (cases "key_restore k") auto
    from ih[OF _ r] x kv have "str_keys r" by blast
    with k' show "case y of (k, v) \<Rightarrow> str_key k \<and> str_keys v"
      by (simp add: key_restore_str)
  qed
  then show ?thesis by (simp add: list_all_iff)
qed

lemma load_dict_str_keys:
  assumes so: "set_order ord"
    and sk: "list_all (\<lambda>(k, v). str_key k \<and> str_keys v) kvs"
    and ih: "\<And>k v w. (k, v) \<in> set kvs \<Longrightarrow> str_keys v \<Longrightarrow>
                StorageFormat_to_working_format ord v = Inr w \<Longrightarrow> str_keys w"
    and res: "(if map_of kvs K_TYPE = Some (PStr (ustr ''set'')) then
        (case map_of kvs K_VALUE of
           None \<Rightarrow> Inl KeyError
         | Some v \<Rightarrow>
            (case StorageFormat_to_working_format ord v of
               Inl e \<Rightarrow> Inl e
             | Inr r \<Rightarrow> (case py_iter r of Inl e \<Rightarrow> Inl e | Inr xs \<Rightarrow> py_set ord xs)))
      else if map_of kvs K_TYPE = Some (PStr (ustr ''frozenset'')) then
        (case map_of kvs K_VALUE of
           None \<Rightarrow> Inl KeyError
         | Some v \<Rightarrow>
            (case StorageFormat_to_working_format ord v of
               Inl e \<Rightarrow> Inl e
             | Inr r \<Rightarrow> (case py_iter r of Inl e \<Rightarrow> Inl e | Inr xs \<Rightarrow> py_frozenset ord xs)))
      else
        (case sequence (map (\<lambda>(k, v).
                 case StorageFormat_to_working_format ord v of
                   Inl e \<Rightarrow> Inl e
                 | Inr r \<Rightarrow> (case key_restore k of Inl e \<Rightarrow> Inl e | Inr k' \<Rightarrow> Inr (k', r))) kvs) of
           Inl e \<Rightarrow> Inl e
         | Inr items \<Rightarrow> Inr (PDict (dict_of_items items)))) = Inr w"
  shows "str_keys w"
proof -
  have ihv: "\<And>v w. map_of kvs K_VALUE = Some v \<Longrightarrow> str_keys v \<Longrightarrow>
                StorageFormat_to_working_format ord v = Inr w \<Longrightarrow> str_keys w"
    using ih by (blast dest: map_of_SomeD)
  have val: "\<And>v. map_of kvs K_VALUE = Some v \<Longrightarrow> str_keys v"
    using sk by (auto simp: list_all_iff dest!: map_of_SomeD)
  have vals: "\<And>k v. (k, v) \<in> set kvs \<Longrightarrow> str_keys v"
    using sk by (auto simp: list_all_iff)
  consider (s) "map_of kvs K_TYPE = Some (PStr (ustr ''set''))"
    | (f) "map_of kvs K_TYPE \<noteq> Some (PStr (ustr ''set''))"
          "map_of kvs K_TYPE = Some (PStr (ustr ''frozenset''))"
    | (d) "map_of kvs K_TYPE \<noteq> Some (PStr (ustr ''set''))"
          "map_of kvs K_TYPE \<noteq> Some (PStr (ustr ''frozenset''))"
    by blast
  then show ?thesis
  proof cases
    case s
    with res obtain v r xs where v: "map_of kvs K_VALUE = Some v"
      and r: "StorageFormat_to_working_format ord v = Inr r"
      and xs: "py_iter r = Inr xs" and w: "py_set ord xs = Inr w"
      by (auto split: option.splits sum.splits)
    from ihv[OF v val[OF v] r] have "str_keys r" .
    then have "list_all str_keys xs" using xs by (rule str_keys_py_iter)
    with so show ?thesis using w by (rule str_keys_py_set)
  next
    case f
    with res obtain v r xs where v: "map_of kvs K_VALUE = Some v"
      and r: "StorageFormat_to_working_format ord v = Inr r"
      and xs: "py_iter r = Inr xs" and w: "py_frozenset ord xs = Inr w"
      by (auto split: option.splits sum.splits)
    from ihv[OF v val[OF v] r] have "str_keys r" .
    then have "list_all str_keys xs" using xs by (rule str_keys_py_iter)
    with so show ?thesis using w by (rule str_keys_py_frozenset)
  next
    case d
    with res obtain items where items: "sequence (map (\<lambda>(k, v).
                 case StorageFormat_to_working_format ord v of
                   Inl e \<Rightarrow> Inl e
                 | Inr r \<Rightarrow> (case key_restore k of Inl e \<Rightarrow> Inl e | Inr k' \<Rightarrow> Inr (k', r))) kvs)
              = Inr items" and w: "w = PDict (dict_of_items items)"
      by (auto split: sum.splits)
    have "list_all (\<lambda>(k, v). str_key k \<and> str_keys v) items"
      using items ih vals by (intro load_items_str_keys[of kvs "StorageFormat_to_working_format ord"]) blast+
    then show ?thesis using w by (simp add: str_keys_dict_of_items)
  qed
qed

lemma str_keys_load:
  "set_order ord \<Longrightarrow> str_keys d \<Longrightarrow> StorageFormat_to_working_format ord d = Inr w \<Longrightarrow> str_keys w"
proof (induction d arbitrary: w rule: pyval_induct2)
  case (Dict kvs)
  show ?case
  proof (rule load_dict_str_keys[OF Dict.prems(1), of kvs])
    show "list_all (\<lambda>(k, v). str_key k \<and> str_keys v) kvs" using Dict.prems(2) by simp
    show "str_keys w'" if "(k, v) \<in> set kvs" "str_keys v"
      "StorageFormat_to_working_format ord v = Inr w'" for k v w'
      using Dict.IH[OF that(1) Dict.prems(1) that(2) that(3)] .
    show "(if map_of kvs K_TYPE = Some (PStr (ustr ''set'')) then
        (case map_of kvs K_VALUE of
           None \<Rightarrow> Inl KeyError
         | Some v \<Rightarrow>
            (case StorageFormat_to_working_format ord v of
               Inl e \<Rightarrow> Inl e
             | Inr r \<Rightarrow> (case py_iter r of Inl e \<Rightarrow> Inl e | Inr xs \<Rightarrow> py_set ord xs)))
      else if map_of kvs K_TYPE = Some (PStr (ustr ''frozenset'')) then
        (case map_of kvs K_VALUE of
           None \<Rightarrow> Inl KeyError
         | Some v \<Rightarrow>
            (case StorageFormat_to_working_format ord v of
               Inl e \<Rightarrow> Inl e
             | Inr r \<Rightarrow> (case py_iter r of Inl e \<Rightarrow> Inl e | Inr xs \<Rightarrow> py_frozenset ord xs)))
      else
        (case sequence (map (\<lambda>(k, v).
                 case StorageFormat_to_working_format ord v of
                   Inl e \<Rightarrow> Inl e
                 | Inr r \<Rightarrow> (case key_restore k of Inl e \<Rightarrow> Inl e | Inr k' \<Rightarrow> Inr (k', r))) kvs) of
           Inl e \<Rightarrow> Inl e
         | Inr items \<Rightarrow> Inr (PDict (dict_of_items items)))) = Inr w"
      using Dict.prems(3) by simp
  qed
next
  case (HashDict kvs)
  show ?case
  proof (rule load_dict_str_keys[OF HashDict.prems(1), of kvs])
    show "list_all (\<lambda>(k, v). str_key k \<and> str_keys v) kvs" using HashDict.prems(2) by simp
    show "str_keys w'" if "(k, v) \<in> set kvs" "str_keys v"
      "StorageFormat_to_working_format ord v = Inr w'" for k v w'
      using HashDict.IH[OF that(1) HashDict.prems(1) that(2) that(3)] .
    show "(if map_of kvs K_TYPE = Some (PStr (ustr ''set'')) then
        (case map_of kvs K_VALUE of
           None \<Rightarrow> Inl KeyError
         | Some v \<Rightarrow>
            (case StorageFormat_to_working_format ord v of
               Inl e \<Rightarrow> Inl e
             | Inr r \<Rightarrow> (case py_iter r of Inl e \<Rightarrow> Inl e | Inr xs \<Rightarrow> py_set ord xs)))
      else if map_of kvs K_TYPE = Some (PStr (ustr ''frozenset'')) then
        (case map_of kvs K_VALUE of
           None \<Rightarrow> Inl KeyError
         | Some v \<Rightarrow>
            (case StorageFormat_to_working_format ord v of
               Inl e \<Rightarrow> Inl e
             | Inr r \<Rightarrow> (case py_iter r of Inl e \<Rightarrow> Inl e | Inr xs \<Rightarrow> py_frozenset ord xs)))
      else
        (case sequence (map (\<lambda>(k, v).
                 case StorageFormat_to_working_format ord v of
                   Inl e \<Rightarrow> Inl e
                 | Inr r \<Rightarrow> (case key_restore k of Inl e \<Rightarrow> Inl e | Inr k' \<Rightarrow> Inr (k', r))) kvs) of
           Inl e \<Rightarrow> Inl e
         | Inr items \<Rightarrow> Inr (PDict (dict_of_items items)))) = Inr w"
      using HashDict.prems(3) by simp
  qed
next
  case (List xs)
  from List.prems(3) obtain ys where ys: "sequence (map (StorageFormat_to_working_format ord) xs) = Inr ys"
    and w: "w = PList ys" by (auto split: sum.splits)
  have "\<And>y. y \<in> set ys \<Longrightarrow> str_keys y"
  proof -
    fix y assume "y \<in> set ys"
    from sequence_elems[OF ys this] obtain x where x: "x \<in> set xs"
      "StorageFormat_to_working_format ord x = Inr y" by blast
    with List.prems(2) have "str_keys x" by (simp add: list_all_iff)
    from List.IH[OF x(1) List.prems(1) this x(2)] show "str_keys y" .
  qed
  with w show ?case by (simp add: list_all_iff)
qed auto

lemma store_dict_keys:
  "\<exists>kvs'. store (PDict kvs) = PDict kvs' \<and> fst ` set kvs' = map_key ` fst ` set kvs"
proof -
  have "fst ` set (map (\<lambda>(k, v). (map_key k, WorkingFormat_to_storage_format v)) kvs)
          = map_key ` fst ` set kvs"
    by (force simp: image_iff)
  then show ?thesis by (simp add: store_def keys_dict_of_items)
qed

subsection \<open>Equality of Python values\<close>

lemma same_elems_refl: "(\<And>x. x \<in> set xs \<Longrightarrow> R x x) \<Longrightarrow> same_elems R xs xs"
  by (auto simp: same_elems_def)

lemma same_elems_trans:
  assumes "\<And>x y z. x \<in> set xs \<Longrightarrow> R x y \<Longrightarrow> R y z \<Longrightarrow> R x z"
    and "same_elems R xs ys" and "same_elems R ys zs"
  shows "same_elems R xs zs"
  using assms unfolding same_elems_def by meson

lemma same_elems_sym:
  assumes "\<And>x y. x \<in> set xs \<Longrightarrow> R x y \<Longrightarrow> R y x"
    and "same_elems R xs ys"
  shows "same_elems R ys xs"
  using assms unfolding same_elems_def by meson

lemma py_eq_sets:
  "py_eq (PSet xs) (PSet ys) = same_elems py_eq xs ys"
  "py_eq (PSet xs) (PFrozenSet ys) = same_elems py_eq xs ys"
  "py_eq (PFrozenSet xs) (PSet ys) = same_elems py_eq xs ys"
  "py_eq (PFrozenSet xs) (PFrozenSet ys) = same_elems py_eq xs ys"
  by (simp_all add: same_elems_def list_all_iff list_ex_iff)

lemma py_eq_dicts:
  "py_eq (PDict kvs) (PDict kvs') = same_elems item_eq kvs kvs'"
  "py_eq (PDict kvs) (PHashDict kvs') = same_elems item_eq kvs kvs'"
  "py_eq (PHashDict kvs) (PDict kvs') = same_elems item_eq kvs kvs'"
  "py_eq (PHashDict kvs) (PHashDict kvs') = same_elems item_eq kvs kvs'"
  by (simp_all add: same_elems_def item_eq_def list_all_iff list_ex_iff)

lemma py_eq_objs:
  "py_eq (PObj n h fs) (PObj n' h' fs') = (n = n' \<and> h = h' \<and> same_elems item_eq fs fs')"
  by (simp add: same_elems_def item_eq_def list_all_iff list_ex_iff)

lemma py_eq_set_cases:
  "py_eq (PSet xs) b = (\<exists>ys. (b = PSet ys \<or> b = PFrozenSet ys) \<and> same_elems py_eq xs ys)"
  "py_eq (PFrozenSet xs) b = (\<exists>ys. (b = PSet ys \<or> b = PFrozenSet ys) \<and> same_elems py_eq xs ys)"
  by (cases b; simp add: same_elems_def list_all_iff list_ex_iff)+

lemma py_eq_dict_cases:
  "py_eq (PDict kvs) b = (\<exists>kvs'. (b = PDict kvs' \<or> b = PHashDict kvs') \<and> same_elems item_eq kvs kvs')"
  "py_eq (PHashDict kvs) b = (\<exists>kvs'. (b = PDict kvs' \<or> b = PHashDict kvs') \<and> same_elems item_eq kvs kvs')"
  by (cases b; simp add: same_elems_def item_eq_def list_all_iff list_ex_iff)+

lemma py_eq_obj_cases:
  "py_eq (PObj n h fs) b = (\<exists>fs'. b = PObj n h fs' \<and> same_elems item_eq fs fs')"
  by (cases b; auto simp add: same_elems_def item_eq_def list_all_iff list_ex_iff)

lemma py_eq_list_cases:
  "py_eq (PList xs) b = (\<exists>ys. b = PList ys \<and> list_all2 py_eq xs ys)"
  by (cases b; simp)

lemma py_eq_refl: "py_eq a a"
proof (induction a rule: pyval_induct2)
  case (Dict kvs)
  then show ?case by (simp only: py_eq_dicts) (auto intro!: same_elems_refl simp: item_eq_def)
next
  case (HashDict kvs)
  then show ?case by (simp only: py_eq_dicts) (auto intro!: same_elems_refl simp: item_eq_def)
next
  case (List xs)
  then show ?case by (simp add: list_all2_same)
next
  case (Set xs)
  then show ?case by (simp only: py_eq_sets) (auto intro!: same_elems_refl)
next
  case (FrozenSet xs)
  then show ?case by (simp only: py_eq_sets) (auto intro!: same_elems_refl)
next
  case (Obj n h fs)
  then show ?case by (simp only: py_eq_objs) (auto intro!: same_elems_refl simp: item_eq_def)
qed simp_all

lemma item_eq_trans_if:
  assumes "\<And>b c. py_eq (snd kv) b \<Longrightarrow> py_eq b c \<Longrightarrow> py_eq (snd kv) c"
  shows "item_eq kv kv' \<Longrightarrow> item_eq kv' kv'' \<Longrightarrow> item_eq kv kv''"
  using assms unfolding item_eq_def by auto

lemma items_trans:
  assumes ih: "\<And>k v b c. (k, v) \<in> set kvs \<Longrightarrow> py_eq v b \<Longrightarrow> py_eq b c \<Longrightarrow> py_eq v c"
    and 1: "same_elems item_eq kvs kvs'" and 2: "same_elems item_eq kvs' kvs''"
  shows "same_elems item_eq kvs kvs''"
proof (rule same_elems_trans[OF _ 1 2])
  fix x y z assume x: "x \<in> set kvs" and xy: "item_eq x y" and yz: "item_eq y z"
  obtain k v where kv: "x = (k, v)" by (cases x)
  from ih[of k v] x kv have "\<And>b c. py_eq (snd x) b \<Longrightarrow> py_eq b c \<Longrightarrow> py_eq (snd x) c" by simp
  then show "item_eq x z" using xy yz by (rule item_eq_trans_if)
qed

lemma py_eq_trans: "py_eq a b \<Longrightarrow> py_eq b c \<Longrightarrow> py_eq a c"
proof (induction a arbitrary: b c rule: pyval_induct2)
  case (Dict kvs)
  from Dict.prems(1) have "\<exists>kvs'. (b = PDict kvs' \<or> b = PHashDict kvs') \<and> same_elems item_eq kvs kvs'"
    by (simp only: py_eq_dict_cases)
  then obtain kvs' where b: "b = PDict kvs' \<or> b = PHashDict kvs'"
    and 1: "same_elems item_eq kvs kvs'" by blast
  from Dict.prems(2) b
  have "\<exists>kvs''. (c = PDict kvs'' \<or> c = PHashDict kvs'') \<and> same_elems item_eq kvs' kvs''"
    using py_eq_dict_cases[of kvs' c] by blast
  then obtain kvs'' where c: "c = PDict kvs'' \<or> c = PHashDict kvs''"
    and 2: "same_elems item_eq kvs' kvs''" by blast
  have "same_elems item_eq kvs kvs''"
  proof (rule items_trans[OF _ 1 2])
    fix k v b c assume "(k, v) \<in> set kvs" "py_eq v b" "py_eq b c"
    then show "py_eq v c" by (rule Dict.IH)
  qed
  with c show ?case using py_eq_dicts[of kvs kvs''] by blast
next
  case (HashDict kvs)
  from HashDict.prems(1) have "\<exists>kvs'. (b = PDict kvs' \<or> b = PHashDict kvs') \<and> same_elems item_eq kvs kvs'"
    by (simp only: py_eq_dict_cases)
  then obtain kvs' where b: "b = PDict kvs' \<or> b = PHashDict kvs'"
    and 1: "same_elems item_eq kvs kvs'" by blast
  from HashDict.prems(2) b
  have "\<exists>kvs''. (c = PDict kvs'' \<or> c = PHashDict kvs'') \<and> same_elems item_eq kvs' kvs''"
    using py_eq_dict_cases[of kvs' c] by blast
  then obtain kvs'' where c: "c = PDict kvs'' \<or> c = PHashDict kvs''"
    and 2: "same_elems item_eq kvs' kvs''" by blast
  have "same_elems item_eq kvs kvs''"
  proof (rule items_trans[OF _ 1 2])
    fix k v b c assume "(k, v) \<in> set kvs" "py_eq v b" "py_eq b c"
    then show "py_eq v c" by (rule HashDict.IH)
  qed
  with c show ?case using py_eq_dicts[of kvs kvs''] by blast
next
  case (Obj n h fs)
  from Obj.prems(1) have "\<exists>fs'. b = PObj n h fs' \<and> same_elems item_eq fs fs'"
    by (simp only: py_eq_obj_cases)
  then obtain fs' where b: "b = PObj n h fs'" and 1: "same_elems item_eq fs fs'" by blast
  from Obj.prems(2) b have "\<exists>fs''. c = PObj n h fs'' \<and> same_elems item_eq fs' fs''"
    using py_eq_obj_cases[of n h fs' c] by blast
  then obtain fs'' where c: "c = PObj n h fs''" and 2: "same_elems item_eq fs' fs''" by blast
  have "same_elems item_eq fs fs''"
  proof (rule items_trans[OF _ 1 2])
    fix k v b c assume "(k, v) \<in> set fs" "py_eq v b" "py_eq b c"
    then show "py_eq v c" by (rule Obj.IH)
  qed
  with c show ?case using py_eq_objs[of n h fs n h fs''] by blast
next
  case (List xs)
  from List.prems(1) have "\<exists>ys. b = PList ys \<and> list_all2 py_eq xs ys"
    by (simp only: py_eq_list_cases)
  then obtain ys where b: "b = PList ys" and 1: "list_all2 py_eq xs ys" by blast
  from List.prems(2) b have "\<exists>zs. c = PList zs \<and> list_all2 py_eq ys zs"
    using py_eq_list_cases[of ys c] by blast
  then obtain zs where c: "c = PList zs" and 2: "list_all2 py_eq ys zs" by blast
  have "list_all2 py_eq xs zs"
  proof (rule list_all2_all_nthI)
    from 1 2 show "length xs = length zs" by (simp add: list_all2_lengthD)
  next
    fix i assume i: "i < length xs"
    with 1 have a: "py_eq (xs ! i) (ys ! i)" by (simp add: list_all2_nthD)
    from i 1 2 have "py_eq (ys ! i) (zs ! i)" by (simp add: list_all2_nthD2 list_all2_lengthD)
    with a List.IH[of "xs ! i"] i show "py_eq (xs ! i) (zs ! i)" by simp
  qed
  with c show ?case by simp
next
  case (Set xs)
  from Set.prems(1) have "\<exists>ys. (b = PSet ys \<or> b = PFrozenSet ys) \<and> same_elems py_eq xs ys"
    by (simp only: py_eq_set_cases)
  then obtain ys where b: "b = PSet ys \<or> b = PFrozenSet ys"
    and 1: "same_elems py_eq xs ys" by blast
  from Set.prems(2) b
  have "\<exists>zs. (c = PSet zs \<or> c = PFrozenSet zs) \<and> same_elems py_eq ys zs"
    using py_eq_set_cases[of ys c] by blast
  then obtain zs where c: "c = PSet zs \<or> c = PFrozenSet zs"
    and 2: "same_elems py_eq ys zs" by blast
  have "same_elems py_eq xs zs"
  proof (rule same_elems_trans[OF _ 1 2])
    fix x y z assume "x \<in> set xs" "py_eq x y" "py_eq y z"
    then show "py_eq x z" by (rule Set.IH)
  qed
  with c show ?case using py_eq_sets[of xs zs] by blast
next
  case (FrozenSet xs)
  from FrozenSet.prems(1) have "\<exists>ys. (b = PSet ys \<or> b = PFrozenSet ys) \<and> same_elems py_eq xs ys"
    by (simp only: py_eq_set_cases)
  then obtain ys where b: "b = PSet ys \<or> b = PFrozenSet ys"
    and 1: "same_elems py_eq xs ys" by blast
  from FrozenSet.prems(2) b
  have "\<exists>zs. (c = PSet zs \<or> c = PFrozenSet zs) \<and> same_elems py_eq ys zs"
    using py_eq_set_cases[of ys c] by blast
  then obtain zs where c: "c = PSet zs \<or> c = PFrozenSet zs"
    and 2: "same_elems py_eq ys zs" by blast
  have "same_elems py_eq xs zs"
  proof (rule same_elems_trans[OF _ 1 2])
    fix x y z assume "x \<in> set xs" "py_eq x y" "py_eq y z"
    then show "py_eq x z" by (rule FrozenSet.IH)
  qed
  with c show ?case using py_eq_sets[of xs zs] by blast
next
  case (Bool x)
  then show ?case by (cases x; auto)
next
  case (Int i)
  then show ?case by auto
qed auto

lemma py_eq_sym: "py_eq a b \<Longrightarrow> py_eq b a"
proof (induction a arbitrary: b rule: pyval_induct2)
  case (Dict kvs)
  from Dict.prems have "\<exists>kvs'. (b = PDict kvs' \<or> b = PHashDict kvs') \<and> same_elems item_eq kvs kvs'"
    by (simp only: py_eq_dict_cases)
  then obtain kvs' where b: "b = PDict kvs' \<or> b = PHashDict kvs'"
    and 1: "same_elems item_eq kvs kvs'" by blast
  have "same_elems item_eq kvs' kvs"
  proof (rule same_elems_sym[OF _ 1])
    fix x y assume x: "x \<in> set kvs" and xy: "item_eq x y"
    obtain k v where kv: "x = (k, v)" by (cases x)
    from xy kv have "py_eq v (snd y)" "fst y = k" by (simp_all add: item_eq_def)
    with Dict.IH[of k v "snd y"] x kv show "item_eq y x" by (simp add: item_eq_def)
  qed
  with b show ?case using py_eq_dicts[of kvs' kvs] by blast
next
  case (HashDict kvs)
  from HashDict.prems have "\<exists>kvs'. (b = PDict kvs' \<or> b = PHashDict kvs') \<and> same_elems item_eq kvs kvs'"
    by (simp only: py_eq_dict_cases)
  then obtain kvs' where b: "b = PDict kvs' \<or> b = PHashDict kvs'"
    and 1: "same_elems item_eq kvs kvs'" by blast
  have "same_elems item_eq kvs' kvs"
  proof (rule same_elems_sym[OF _ 1])
    fix x y assume x: "x \<in> set kvs" and xy: "item_eq x y"
    obtain k v where kv: "x = (k, v)" by (cases x)
    from xy kv have "py_eq v (snd y)" "fst y = k" by (simp_all add: item_eq_def)
    with HashDict.IH[of k v "snd y"] x kv show "item_eq y x" by (simp add: item_eq_def)
  qed
  with b show ?case using py_eq_dicts[of kvs' kvs] by blast
next
  case (Obj n h fs)
  from Obj.prems have "\<exists>fs'. b = PObj n h fs' \<and> same_elems item_eq fs fs'"
    by (simp only: py_eq_obj_cases)
  then obtain fs' where b: "b = PObj n h fs'" and 1: "same_elems item_eq fs fs'" by blast
  have "same_elems item_eq fs' fs"
  proof (rule same_elems_sym[OF _ 1])
    fix x y assume x: "x \<in> set fs" and xy: "item_eq x y"
    obtain k v where kv: "x = (k, v)" by (cases x)
    from xy kv have "py_eq v (snd y)" "fst y = k" by (simp_all add: item_eq_def)
    with Obj.IH[of k v "snd y"] x kv show "item_eq y x" by (simp add: item_eq_def)
  qed
  with b show ?case using py_eq_objs[of n h fs' n h fs] by blast
next
  case (List xs)
  from List.prems have "\<exists>ys. b = PList ys \<and> list_all2 py_eq xs ys"
    by (simp only: py_eq_list_cases)
  then obtain ys where b: "b = PList ys" and 1: "list_all2 py_eq xs ys" by blast
  have "list_all2 py_eq ys xs"
  proof (rule list_all2_all_nthI)
    from 1 show "length ys = length xs" by (simp add: list_all2_lengthD)
  next
    fix i assume i: "i < length ys"
    with 1 have "py_eq (xs ! i) (ys ! i)" by (simp add: list_all2_nthD2)
    moreover from i 1 have "xs ! i \<in> set xs" by (simp add: list_all2_lengthD)
    ultimately show "py_eq (ys ! i) (xs ! i)" by (rule List.IH[rotated])
  qed
  with b show ?case by simp
next
  case (Set xs)
  from Set.prems have "\<exists>ys. (b = PSet ys \<or> b = PFrozenSet ys) \<and> same_elems py_eq xs ys"
    by (simp only: py_eq_set_cases)
  then obtain ys where b: "b = PSet ys \<or> b = PFrozenSet ys"
    and 1: "same_elems py_eq xs ys" by blast
  have "same_elems py_eq ys xs"
  proof (rule same_elems_sym[OF _ 1])
    fix x y assume "x \<in> set xs" "py_eq x y"
    then show "py_eq y x" by (rule Set.IH)
  qed
  with b show ?case using py_eq_sets[of ys xs] by blast
next
  case (FrozenSet xs)
  from FrozenSet.prems have "\<exists>ys. (b = PSet ys \<or> b = PFrozenSet ys) \<and> same_elems py_eq xs ys"
    by (simp only: py_eq_set_cases)
  then obtain ys where b: "b = PSet ys \<or> b = PFrozenSet ys"
    and 1: "same_elems py_eq xs ys" by blast
  have "same_elems py_eq ys xs"
  proof (rule same_elems_sym[OF _ 1])
    fix x y assume "x \<in> set xs" "py_eq x y"
    then show "py_eq y x" by (rule FrozenSet.IH)
  qed
  with b show ?case using py_eq_sets[of ys xs] by blast
next
  case (Bool x)
  then show ?case by (cases x; auto)
next
  case (Int i)
  then show ?case by auto
qed auto

subsection \<open>Storing and loading again\<close>

lemma replace_absent: "old \<notin> set s \<Longrightarrow> replace old new s = s"
  by (induction s) (simp_all add: replace_def)

lemma replace_roundtrip: "b \<notin> set s \<Longrightarrow> replace b a (replace a b s) = s"
proof (induction s)
  case Nil
  then show ?case by (simp add: replace_def)
next
  case (Cons c s)
  then have "replace b a (replace a b s) = s" and "c \<noteq> b" by auto
  moreover have "replace b a (replace a b (c # s))
      = (if (if c = a then b else c) = b then a else (if c = a then b else c))
          # replace b a (replace a b s)"
    by (simp add: replace_def)
  ultimately show ?case by (cases "c = a") simp_all
qed

lemma replace_inj:
  "b \<notin> set s \<Longrightarrow> b \<notin> set t \<Longrightarrow> replace a b s = replace a b t \<Longrightarrow> s = t"
  by (metis replace_roundtrip)

lemma map_key_str_eq: "map_key (KStr s) = KStr (replace DOT FULLWIDTH_DOT s)"
  by (simp add: replace_absent)

lemma key_restore_map_key: "encodable_key k \<Longrightarrow> key_restore (map_key k) = Inr k"
  by (cases k) (simp_all add: replace_roundtrip del: map_key.simps add: map_key_str_eq)

lemma map_key_inj:
  "encodable_key k \<Longrightarrow> encodable_key k' \<Longrightarrow> map_key k = map_key k' \<Longrightarrow> k = k'"
  by (metis key_restore_map_key sum.inject(2))

lemma map_key_restore: "plain_key k \<Longrightarrow> map_key (restore_dots k) = k"
  by (cases k) (simp_all add: replace_roundtrip del: map_key.simps add: map_key_str_eq)

lemma distinct_map_key:
  "distinct ks \<Longrightarrow> list_all encodable_key ks \<Longrightarrow> distinct (map map_key ks)"
proof (induction ks)
  case Nil
  then show ?case by simp
next
  case (Cons k ks)
  then have "map_key k \<notin> map_key ` set ks"
    by (auto simp: list_all_iff dest: map_key_inj)
  with Cons show ?case by simp
qed

lemma encodable_K_TYPE: "encodable_key K_TYPE" "map_key K_TYPE = K_TYPE"
  by (simp_all add: K_TYPE_def ustr_def FULLWIDTH_DOT_def DOT_def)

lemma map_of_map_inj:
  assumes "\<And>k. k \<in> fst ` set kvs \<Longrightarrow> f k = f k0 \<Longrightarrow> k = k0"
  shows "map_of (map (\<lambda>(k, v). (f k, g v)) kvs) (f k0) = map_option g (map_of kvs k0)"
  using assms
proof (induction kvs)
  case Nil
  then show ?case by simp
next
  case (Cons a kvs)
  obtain k v where a: "a = (k, v)" by (cases a)
  have ih: "map_of (map (\<lambda>(k, v). (f k, g v)) kvs) (f k0) = map_option g (map_of kvs k0)"
  proof (rule Cons.IH)
    fix k' assume "k' \<in> fst ` set kvs" "f k' = f k0"
    then show "k' = k0" using Cons.prems[of k'] by simp
  qed
  show ?case
  proof (cases "k = k0")
    case True
    then show ?thesis using a by simp
  next
    case False
    have "f k \<noteq> f k0"
    proof
      assume "f k = f k0"
      moreover have "k \<in> fst ` set (a # kvs)" using a by simp
      ultimately have "k = k0" by (rule Cons.prems[rotated])
      with False show False by simp
    qed
    with False a ih show ?thesis by simp
  qed
qed

lemma store_PStr: "WorkingFormat_to_storage_format v = PStr s \<longleftrightarrow> v = PStr s"
  by (cases v) simp_all

lemma stored_tag:
  assumes "list_all encodable_key (map fst kvs)"
  shows "map_of (map (\<lambda>(k, v). (map_key k, WorkingFormat_to_storage_format v)) kvs) K_TYPE
           = Some (PStr s) \<longleftrightarrow> map_of kvs K_TYPE = Some (PStr s)"
proof -
  have "map_of (map (\<lambda>(k, v). (map_key k, WorkingFormat_to_storage_format v)) kvs) (map_key K_TYPE)
          = map_option WorkingFormat_to_storage_format (map_of kvs K_TYPE)"
  proof (rule map_of_map_inj)
    fix k assume "k \<in> fst ` set kvs" "map_key k = map_key K_TYPE"
    with assms show "k = K_TYPE"
      by (auto simp: list_all_iff intro: map_key_inj encodable_K_TYPE(1))
  qed
  then show ?thesis by (auto simp: encodable_K_TYPE(2) store_PStr)
qed

lemma same_items_pointwise:
  "(\<And>k v. (k, v) \<in> set kvs \<Longrightarrow> py_eq (g v) v) \<Longrightarrow>
   same_elems item_eq (map (\<lambda>(k, v). (k, g v)) kvs) kvs"
  unfolding same_elems_def item_eq_def by (auto simp: image_iff) force+

lemma dedup_step_covers:
  "y \<in> set acc \<union> set xs \<Longrightarrow>
   \<exists>a\<in>set (foldl (\<lambda>acc x. if list_ex (\<lambda>a. py_eq a x) acc then acc else acc @ [x]) acc xs).
      py_eq a y"
proof (induction xs arbitrary: acc y)
  case Nil
  then show ?case using py_eq_refl by auto
next
  case (Cons x xs)
  let ?acc' = "if list_ex (\<lambda>a. py_eq a x) acc then acc else acc @ [x]"
  let ?res = "foldl (\<lambda>acc x. if list_ex (\<lambda>a. py_eq a x) acc then acc else acc @ [x]) ?acc' xs"
  have res: "foldl (\<lambda>acc x. if list_ex (\<lambda>a. py_eq a x) acc then acc else acc @ [x]) acc (x # xs) = ?res"
    by simp
  have ih: "\<And>z. z \<in> set ?acc' \<union> set xs \<Longrightarrow> \<exists>a\<in>set ?res. py_eq a z"
    using Cons.IH[of _ ?acc'] by blast
  have sub: "set acc \<subseteq> set ?acc'" by auto
  consider (acc) "y \<in> set acc" | (x) "y = x" | (xs) "y \<in> set xs" using Cons.prems by auto
  then have "\<exists>a\<in>set ?res. py_eq a y"
  proof cases
    case acc
    with sub have "y \<in> set ?acc' \<union> set xs" by blast
    then show ?thesis by (rule ih)
  next
    case x
    show ?thesis
    proof (cases "list_ex (\<lambda>a. py_eq a x) acc")
      case True
      then obtain a0 where a0: "a0 \<in> set acc" "py_eq a0 x" by (auto simp: list_ex_iff)
      with sub have "a0 \<in> set ?acc' \<union> set xs" by blast
      from ih[OF this] obtain a where "a \<in> set ?res" "py_eq a a0" by blast
      with a0(2) x show ?thesis using py_eq_trans by blast
    next
      case False
      then have "x \<in> set ?acc' \<union> set xs" by simp
      from ih[OF this] x show ?thesis by blast
    qed
  next
    case xs
    then have "y \<in> set ?acc' \<union> set xs" by blast
    then show ?thesis by (rule ih)
  qed
  then show ?case unfolding res .
qed

lemma dedup_covers: "y \<in> set ys \<Longrightarrow> \<exists>a\<in>set (dedup ys). py_eq a y"
  using dedup_step_covers[of y "[]" ys] by (simp add: dedup_def)

lemma rebuilt_set_same_elems:
  assumes so: "set_order ord" and p: "list_all2 py_eq ys xs"
  shows "same_elems py_eq (ord (dedup ys)) xs"
proof -
  have s: "set (ord (dedup ys)) = set (dedup ys)" using so by (rule set_order_set)
  have 1: "\<forall>a\<in>set (ord (dedup ys)). \<exists>x\<in>set xs. py_eq a x"
  proof
    fix a assume "a \<in> set (ord (dedup ys))"
    with s set_dedup[of ys] have "a \<in> set ys" by blast
    then obtain i where "i < length ys" "a = ys ! i" by (auto simp: in_set_conv_nth)
    with p have "py_eq a (xs ! i)" "xs ! i \<in> set xs"
      by (simp_all add: list_all2_nthD list_all2_lengthD)
    then show "\<exists>x\<in>set xs. py_eq a x" by blast
  qed
  have 2: "\<forall>x\<in>set xs. \<exists>a\<in>set (ord (dedup ys)). py_eq a x"
  proof
    fix x assume "x \<in> set xs"
    then obtain i where i: "i < length xs" "x = xs ! i" by (auto simp: in_set_conv_nth)
    with p have y: "py_eq (ys ! i) x" "ys ! i \<in> set ys"
      by (simp_all add: list_all2_nthD2 list_all2_lengthD)
    from dedup_covers[OF y(2)] obtain a where "a \<in> set (dedup ys)" "py_eq a (ys ! i)" by blast
    with y(1) s show "\<exists>a\<in>set (ord (dedup ys)). py_eq a x" using py_eq_trans by blast
  qed
  from 1 2 show ?thesis by (simp add: same_elems_def)
qed

lemma sequence_map_results:
  assumes "\<And>x. x \<in> set xs \<Longrightarrow> \<exists>w. f x = Inr w \<and> P w x"
  shows "\<exists>ys. sequence (map f xs) = Inr ys \<and> list_all2 P ys xs"
proof -
  have "\<And>x. x \<in> set xs \<Longrightarrow> f x = Inr (projr (f x))" using assms by force
  then have s: "sequence (map f xs) = Inr (map (\<lambda>x. projr (f x)) xs)" by (rule sequence_map_Inr)
  have "list_all2 P (map (\<lambda>x. projr (f x)) xs) xs"
  proof (rule list_all2_all_nthI)
    show "length (map (\<lambda>x. projr (f x)) xs) = length xs" by simp
  next
    fix i assume "i < length (map (\<lambda>x. projr (f x)) xs)"
    then have i: "i < length xs" by simp
    then have "xs ! i \<in> set xs" by simp
    from assms[OF this] obtain w where "f (xs ! i) = Inr w" "P w (xs ! i)" by blast
    with i show "P (map (\<lambda>x. projr (f x)) xs ! i) (xs ! i)" by simp
  qed
  with s show ?thesis by blast
qed

lemma load_stored_set:
  assumes so: "set_order ord"
    and el: "\<And>x. x \<in> set xs \<Longrightarrow>
        \<exists>w. StorageFormat_to_working_format ord (WorkingFormat_to_storage_format x) = Inr w \<and>
            py_eq w x \<and> hashable w"
  shows "\<exists>ys. StorageFormat_to_working_format ord (WorkingFormat_to_storage_format (PSet xs))
                 = Inr (PSet ys) \<and> same_elems py_eq ys xs"
    and "\<exists>ys. StorageFormat_to_working_format ord (WorkingFormat_to_storage_format (PFrozenSet xs))
                 = Inr (PFrozenSet ys) \<and> same_elems py_eq ys xs"
proof -
  let ?f = "\<lambda>x. StorageFormat_to_working_format ord (WorkingFormat_to_storage_format x)"
  from sequence_map_results[of xs ?f "\<lambda>w x. py_eq w x \<and> hashable w"] el
  obtain ys where s: "sequence (map ?f xs) = Inr ys"
    and p: "list_all2 (\<lambda>w x. py_eq w x \<and> hashable w) ys xs" by blast
  from p have pe: "list_all2 py_eq ys xs" by (rule list_all2_mono) simp
  from p have h: "list_all hashable ys"
    by (auto simp: list_all_iff in_set_conv_nth list_all2_conv_all_nth)
  from s have s': "sequence (map (StorageFormat_to_working_format ord)
                      (map WorkingFormat_to_storage_format xs)) = Inr ys"
    by (simp add: comp_def)
  have l: "StorageFormat_to_working_format ord (PList (map WorkingFormat_to_storage_format xs))
             = Inr (PList ys)"
    using s' by simp
  have ne: "ustr ''frozenset'' \<noteq> ustr ''set''" by (simp add: ustr_def)
  have se: "same_elems py_eq (ord (dedup ys)) xs" using so pe by (rule rebuilt_set_same_elems)
  have "StorageFormat_to_working_format ord (WorkingFormat_to_storage_format (PSet xs))
          = Inr (PSet (ord (dedup ys)))"
    using l h by (simp add: py_set_def)
  with se show "\<exists>ys. StorageFormat_to_working_format ord (WorkingFormat_to_storage_format (PSet xs))
                 = Inr (PSet ys) \<and> same_elems py_eq ys xs" by blast
  have "StorageFormat_to_working_format ord (WorkingFormat_to_storage_format (PFrozenSet xs))
          = Inr (PFrozenSet (ord (dedup ys)))"
    using l h ne by (simp add: py_frozenset_def)
  with se show "\<exists>ys. StorageFormat_to_working_format ord (WorkingFormat_to_storage_format (PFrozenSet xs))
                 = Inr (PFrozenSet ys) \<and> same_elems py_eq ys xs" by blast
qed

lemma load_stored_items:
  assumes d: "distinct (map fst kvs)" and e: "list_all encodable_key (map fst kvs)"
    and nt: "\<not> set_tagged kvs"
    and vs: "\<And>k v. (k, v) \<in> set kvs \<Longrightarrow>
        \<exists>w. StorageFormat_to_working_format ord (WorkingFormat_to_storage_format v) = Inr w \<and>
            py_eq w v"
  shows "\<exists>items. StorageFormat_to_working_format ord
           (PDict (dict_of_items (map (\<lambda>(k, v). (map_key k, WorkingFormat_to_storage_format v)) kvs)))
             = Inr (PDict items) \<and> same_elems item_eq items kvs"
proof -
  let ?S = "map (\<lambda>(k, v). (map_key k, WorkingFormat_to_storage_format v)) kvs"
  let ?rt = "\<lambda>v. projr (StorageFormat_to_working_format ord (WorkingFormat_to_storage_format v))"
  let ?F = "\<lambda>(k, v). case StorageFormat_to_working_format ord v of
                   Inl e \<Rightarrow> Inl e
                 | Inr r \<Rightarrow> (case key_restore k of Inl e \<Rightarrow> Inl e | Inr k' \<Rightarrow> Inr (k', r))"
  let ?G = "\<lambda>(k, v). (k, ?rt v)"
  have keys: "map fst ?S = map map_key (map fst kvs)"
    by (induction kvs) (simp_all add: case_prod_beta)
  with d e have "distinct (map fst ?S)" by (simp only: distinct_map_key)
  then have S: "dict_of_items ?S = ?S" by (rule dict_of_items_distinct)
  have t1: "map_of ?S K_TYPE \<noteq> Some (PStr (ustr ''set''))"
    and t2: "map_of ?S K_TYPE \<noteq> Some (PStr (ustr ''frozenset''))"
    using nt stored_tag[OF e] by (simp_all add: set_tagged_def)
  have "\<And>x. x \<in> set kvs \<Longrightarrow> (?F \<circ> (\<lambda>(k, v). (map_key k, WorkingFormat_to_storage_format v))) x
            = Inr (?G x)"
  proof -
    fix x assume x: "x \<in> set kvs"
    obtain k v where kv: "x = (k, v)" by (cases x)
    from x kv e have "encodable_key k" by (force simp: list_all_iff)
    then have kr: "key_restore (map_key k) = Inr k" by (rule key_restore_map_key)
    from vs x kv obtain w where
      "StorageFormat_to_working_format ord (WorkingFormat_to_storage_format v) = Inr w" by blast
    with kr kv show "(?F \<circ> (\<lambda>(k, v). (map_key k, WorkingFormat_to_storage_format v))) x
            = Inr (?G x)" by simp
  qed
  then have "sequence (map (?F \<circ> (\<lambda>(k, v). (map_key k, WorkingFormat_to_storage_format v))) kvs)
               = Inr (map ?G kvs)" by (rule sequence_map_Inr)
  then have seq: "sequence (map ?F ?S) = Inr (map ?G kvs)" by simp
  have mg: "map fst (map ?G kvs) = map fst kvs" by (induction kvs) (simp_all add: case_prod_beta)
  have "distinct (map fst (map ?G kvs))" unfolding mg by (rule d)
  then have G: "dict_of_items (map ?G kvs) = map ?G kvs" by (rule dict_of_items_distinct)
  have res: "StorageFormat_to_working_format ord (PDict ?S) = Inr (PDict (map ?G kvs))"
    using t1 t2 seq G by simp
  have "same_elems item_eq (map ?G kvs) kvs"
  proof (rule same_items_pointwise)
    fix k v assume "(k, v) \<in> set kvs"
    from vs[OF this] show "py_eq (?rt v) v" by force
  qed
  with res S show ?thesis by auto
qed

lemma set_elem_working_doc: "set_elem w \<Longrightarrow> working_doc w"
  by (cases w) simp_all

lemma load_store_roundtrip:
  assumes so: "set_order ord"
  shows "working_doc w \<Longrightarrow>
     \<exists>w'. StorageFormat_to_working_format ord (WorkingFormat_to_storage_format w) = Inr w' \<and>
          py_eq w' w \<and> (set_elem w \<longrightarrow> hashable w')"
proof (induction w rule: pyval_induct2)
  case (Dict kvs)
  from Dict.prems have d: "distinct (map fst kvs)" and e: "list_all encodable_key (map fst kvs)"
    and nt: "\<not> set_tagged kvs" and vs: "list_all (\<lambda>(k, v). working_doc v) kvs" by simp_all
  have "\<exists>items. StorageFormat_to_working_format ord
           (PDict (dict_of_items (map (\<lambda>(k, v). (map_key k, WorkingFormat_to_storage_format v)) kvs)))
             = Inr (PDict items) \<and> same_elems item_eq items kvs"
  proof (rule load_stored_items[OF d e nt])
    fix k v assume kv: "(k, v) \<in> set kvs"
    with vs have "working_doc v" by (force simp: list_all_iff)
    from Dict.IH[OF kv this]
    show "\<exists>w. StorageFormat_to_working_format ord (WorkingFormat_to_storage_format v) = Inr w \<and>
            py_eq w v" by blast
  qed
  then obtain items where r: "StorageFormat_to_working_format ord
           (PDict (dict_of_items (map (\<lambda>(k, v). (map_key k, WorkingFormat_to_storage_format v)) kvs)))
             = Inr (PDict items)" and se: "same_elems item_eq items kvs" by blast
  have a: "StorageFormat_to_working_format ord (WorkingFormat_to_storage_format (PDict kvs))
             = Inr (PDict items)"
    using r by (simp only: WorkingFormat_to_storage_format.simps)
  have b: "py_eq (PDict items) (PDict kvs)" using se by (simp only: py_eq_dicts)
  have c: "set_elem (PDict kvs) \<longrightarrow> hashable (PDict items)" by simp
  from a b c show ?case by blast
next
  case (HashDict kvs)
  from HashDict.prems have d: "distinct (map fst kvs)" and e: "list_all encodable_key (map fst kvs)"
    and nt: "\<not> set_tagged kvs" and vs: "list_all (\<lambda>(k, v). working_doc v) kvs" by simp_all
  have "\<exists>items. StorageFormat_to_working_format ord
           (PDict (dict_of_items (map (\<lambda>(k, v). (map_key k, WorkingFormat_to_storage_format v)) kvs)))
             = Inr (PDict items) \<and> same_elems item_eq items kvs"
  proof (rule load_stored_items[OF d e nt])
    fix k v assume kv: "(k, v) \<in> set kvs"
    with vs have "working_doc v" by (force simp: list_all_iff)
    from HashDict.IH[OF kv this]
    show "\<exists>w. StorageFormat_to_working_format ord (WorkingFormat_to_storage_format v) = Inr w \<and>
            py_eq w v" by blast
  qed
  then obtain items where r: "StorageFormat_to_working_format ord
           (PDict (dict_of_items (map (\<lambda>(k, v). (map_key k, WorkingFormat_to_storage_format v)) kvs)))
             = Inr (PDict items)" and se: "same_elems item_eq items kvs" by blast
  have a: "StorageFormat_to_working_format ord (WorkingFormat_to_storage_format (PHashDict kvs))
             = Inr (PDict items)"
    using r by (simp only: WorkingFormat_to_storage_format.simps)
  have b: "py_eq (PDict items) (PHashDict kvs)" using se by (simp only: py_eq_dicts)
  have c: "set_elem (PHashDict kvs) \<longrightarrow> hashable (PDict items)" by simp
  from a b c show ?case by blast
next
  case (List xs)
  have "\<exists>ys. sequence (map (\<lambda>x. StorageFormat_to_working_format ord (WorkingFormat_to_storage_format x)) xs)
           = Inr ys \<and> list_all2 py_eq ys xs"
  proof (rule sequence_map_results)
    fix x assume x: "x \<in> set xs"
    with List.prems have "working_doc x" by (simp add: list_all_iff)
    from List.IH[OF x this]
    show "\<exists>w. StorageFormat_to_working_format ord (WorkingFormat_to_storage_format x) = Inr w \<and>
            py_eq w x" by blast
  qed
  then obtain ys where s: "sequence (map (StorageFormat_to_working_format ord)
                      (map WorkingFormat_to_storage_format xs)) = Inr ys" and p: "list_all2 py_eq ys xs"
    by (auto simp: comp_def)
  have a: "StorageFormat_to_working_format ord (WorkingFormat_to_storage_format (PList xs))
             = Inr (PList ys)" using s by simp
  have b: "py_eq (PList ys) (PList xs)" using p by simp
  have c: "set_elem (PList xs) \<longrightarrow> hashable (PList ys)" by simp
  from a b c show ?case by blast
next
  case (Set xs)
  have el: "\<And>x. x \<in> set xs \<Longrightarrow>
        \<exists>w. StorageFormat_to_working_format ord (WorkingFormat_to_storage_format x) = Inr w \<and>
            py_eq w x \<and> hashable w"
  proof -
    fix x assume x: "x \<in> set xs"
    with Set.prems have se: "set_elem x" by (simp add: list_all_iff)
    then have "working_doc x" by (rule set_elem_working_doc)
    from Set.IH[OF x this] se
    show "\<exists>w. StorageFormat_to_working_format ord (WorkingFormat_to_storage_format x) = Inr w \<and>
            py_eq w x \<and> hashable w" by blast
  qed
  from load_stored_set(1)[OF so el] obtain ys where
    a: "StorageFormat_to_working_format ord (WorkingFormat_to_storage_format (PSet xs))
       = Inr (PSet ys)" and se: "same_elems py_eq ys xs" by blast
  have b: "py_eq (PSet ys) (PSet xs)" using se by (simp only: py_eq_sets)
  have c: "set_elem (PSet xs) \<longrightarrow> hashable (PSet ys)" by simp
  from a b c show ?case by blast
next
  case (FrozenSet xs)
  have el: "\<And>x. x \<in> set xs \<Longrightarrow>
        \<exists>w. StorageFormat_to_working_format ord (WorkingFormat_to_storage_format x) = Inr w \<and>
            py_eq w x \<and> hashable w"
  proof -
    fix x assume x: "x \<in> set xs"
    with FrozenSet.prems have se: "set_elem x" by (simp add: list_all_iff)
    then have "working_doc x" by (rule set_elem_working_doc)
    from FrozenSet.IH[OF x this] se
    show "\<exists>w. StorageFormat_to_working_format ord (WorkingFormat_to_storage_format x) = Inr w \<and>
            py_eq w x \<and> hashable w" by blast
  qed
  from load_stored_set(2)[OF so el] obtain ys where
    a: "StorageFormat_to_working_format ord (WorkingFormat_to_storage_format (PFrozenSet xs))
       = Inr (PFrozenSet ys)" and se: "same_elems py_eq ys xs" by blast
  have b: "py_eq (PFrozenSet ys) (PFrozenSet xs)" using se by (simp only: py_eq_sets)
  have c: "set_elem (PFrozenSet xs) \<longrightarrow> hashable (PFrozenSet ys)" by simp
  from a b c show ?case by blast
qed simp_all

subsection \<open>Loading and storing again\<close>

lemma two_items:
  assumes d: "distinct (map fst kvs)" and l: "length kvs = 2"
    and a: "map_of kvs a = Some x" and b: "map_of kvs b = Some y" and ne: "a \<noteq> b"
  shows "set kvs = {(a, x), (b, y)}"
proof -
  from l obtain p q where kvs: "kvs = [p, q]"
    by (cases kvs; cases "tl kvs") auto
  from a have ia: "(a, x) \<in> set kvs" by (rule map_of_SomeD)
  from b have ib: "(b, y) \<in> set kvs" by (rule map_of_SomeD)
  from ia ib ne kvs have "(p = (a, x) \<and> q = (b, y)) \<or> (p = (b, y) \<and> q = (a, x))" by auto
  with kvs show ?thesis by auto
qed

lemma stored_set_eq:
  assumes d: "distinct (map fst kvs)" and l: "length kvs = 2"
    and t: "map_of kvs K_TYPE = Some (PStr tag)" and v: "map_of kvs K_VALUE = Some (PList xs)"
    and p: "py_eq (PList zs) (PList xs)"
  shows "py_eq (PDict [(K_TYPE, PStr tag), (K_VALUE, PList zs)]) (PDict kvs)"
proof -
  have s: "set kvs = {(K_TYPE, PStr tag), (K_VALUE, PList xs)}"
    using d l t v by (rule two_items) simp
  have "same_elems item_eq [(K_TYPE, PStr tag), (K_VALUE, PList zs)] kvs"
    unfolding same_elems_def s using p by (simp add: item_eq_def)
  then show ?thesis by (simp only: py_eq_dicts)
qed

lemma store_load_items:
  assumes d: "distinct (map fst kvs)" and pk: "list_all plain_key (map fst kvs)"
    and nt: "\<not> set_tagged kvs"
    and vs: "\<And>k v. (k, v) \<in> set kvs \<Longrightarrow>
        \<exists>w. StorageFormat_to_working_format ord v = Inr w \<and>
            py_eq (WorkingFormat_to_storage_format w) v"
  shows "\<exists>w. StorageFormat_to_working_format ord (PDict kvs) = Inr w \<and>
            py_eq (WorkingFormat_to_storage_format w) (PDict kvs)"
proof -
  let ?lw = "\<lambda>v. projr (StorageFormat_to_working_format ord v)"
  let ?F = "\<lambda>(k, v). case StorageFormat_to_working_format ord v of
                   Inl e \<Rightarrow> Inl e
                 | Inr r \<Rightarrow> (case key_restore k of Inl e \<Rightarrow> Inl e | Inr k' \<Rightarrow> Inr (k', r))"
  let ?G = "\<lambda>(k, v). (restore_dots k, ?lw v)"
  let ?H = "\<lambda>(k, v). (k, WorkingFormat_to_storage_format (?lw v))"
  from nt have t1: "map_of kvs K_TYPE \<noteq> Some (PStr (ustr ''set''))"
    and t2: "map_of kvs K_TYPE \<noteq> Some (PStr (ustr ''frozenset''))"
    by (simp_all add: set_tagged_def)
  have "\<And>x. x \<in> set kvs \<Longrightarrow> ?F x = Inr (?G x)"
  proof -
    fix x assume x: "x \<in> set kvs"
    obtain k v where kv: "x = (k, v)" by (cases x)
    from x kv pk have "plain_key k" by (force simp: list_all_iff)
    then have kr: "key_restore k = Inr (restore_dots k)" by (rule key_restore_plain)
    from vs x kv obtain w where "StorageFormat_to_working_format ord v = Inr w" by blast
    with kr kv show "?F x = Inr (?G x)" by simp
  qed
  then have seq: "sequence (map ?F kvs) = Inr (map ?G kvs)" by (rule sequence_map_Inr)
  have mg: "map fst (map ?G kvs) = map restore_dots (map fst kvs)"
    by (induction kvs) (simp_all add: case_prod_beta)
  have "distinct (map fst (map ?G kvs))" unfolding mg using d pk by (rule distinct_restore)
  then have G: "dict_of_items (map ?G kvs) = map ?G kvs" by (rule dict_of_items_distinct)
  have a: "StorageFormat_to_working_format ord (PDict kvs) = Inr (PDict (map ?G kvs))"
    using t1 t2 seq G by simp
  have "\<And>x. x \<in> set kvs \<Longrightarrow>
          ((\<lambda>(k, v). (map_key k, WorkingFormat_to_storage_format v)) \<circ> ?G) x = ?H x"
  proof -
    fix x assume x: "x \<in> set kvs"
    obtain k v where kv: "x = (k, v)" by (cases x)
    from x kv pk have "plain_key k" by (force simp: list_all_iff)
    then have "map_key (restore_dots k) = k" by (rule map_key_restore)
    with kv show "((\<lambda>(k, v). (map_key k, WorkingFormat_to_storage_format v)) \<circ> ?G) x = ?H x"
      by simp
  qed
  then have "map ((\<lambda>(k, v). (map_key k, WorkingFormat_to_storage_format v)) \<circ> ?G) kvs = map ?H kvs"
    by (simp only: map_eq_conv) blast
  then have m: "map (\<lambda>(k, v). (map_key k, WorkingFormat_to_storage_format v)) (map ?G kvs)
                  = map ?H kvs" by (simp only: map_map)
  have mh: "map fst (map ?H kvs) = map fst kvs"
    by (induction kvs) (simp_all add: case_prod_beta)
  have "distinct (map fst (map ?H kvs))" unfolding mh by (rule d)
  then have H: "dict_of_items (map ?H kvs) = map ?H kvs" by (rule dict_of_items_distinct)
  have b: "WorkingFormat_to_storage_format (PDict (map ?G kvs)) = PDict (map ?H kvs)"
    by (simp only: WorkingFormat_to_storage_format.simps m H)
  have "same_elems item_eq (map ?H kvs) kvs"
  proof (rule same_items_pointwise)
    fix k v assume "(k, v) \<in> set kvs"
    from vs[OF this] show "py_eq (WorkingFormat_to_storage_format (?lw v)) v" by force
  qed
  then have c: "py_eq (PDict (map ?H kvs)) (PDict kvs)" by (simp only: py_eq_dicts)
  from a b c show ?thesis by simp
qed

lemma store_load_set:
  assumes d: "distinct (map fst kvs)" and l: "length kvs = 2"
    and st: "set_tagged kvs" and v: "map_of kvs K_VALUE = Some (PList xs)"
    and seq: "sequence (map (StorageFormat_to_working_format ord) xs) = Inr ys"
    and h: "list_all hashable ys" and c: "ord (dedup ys) = ys"
    and ih: "\<exists>w. StorageFormat_to_working_format ord (PList xs) = Inr w \<and>
            py_eq (WorkingFormat_to_storage_format w) (PList xs)"
  shows "\<exists>w. StorageFormat_to_working_format ord (PDict kvs) = Inr w \<and>
            py_eq (WorkingFormat_to_storage_format w) (PDict kvs)"
proof -
  have lv: "StorageFormat_to_working_format ord (PList xs) = Inr (PList ys)" using seq by simp
  with ih have p: "py_eq (PList (map WorkingFormat_to_storage_format ys)) (PList xs)" by simp
  have ne: "ustr ''frozenset'' \<noteq> ustr ''set''" by (simp add: ustr_def)
  from st consider (s) "map_of kvs K_TYPE = Some (PStr (ustr ''set''))"
    | (f) "map_of kvs K_TYPE = Some (PStr (ustr ''frozenset''))"
    by (auto simp: set_tagged_def)
  then show ?thesis
  proof cases
    case s
    have a: "StorageFormat_to_working_format ord (PDict kvs) = Inr (PSet ys)"
      using s v lv h c by (simp add: py_set_def)
    have "py_eq (PDict [(K_TYPE, PStr (ustr ''set'')),
             (K_VALUE, PList (map WorkingFormat_to_storage_format ys))]) (PDict kvs)"
      using d l s v p by (rule stored_set_eq)
    then have "py_eq (WorkingFormat_to_storage_format (PSet ys)) (PDict kvs)"
      by (simp only: WorkingFormat_to_storage_format.simps)
    with a show ?thesis by blast
  next
    case f
    have a: "StorageFormat_to_working_format ord (PDict kvs) = Inr (PFrozenSet ys)"
      using f v lv h c ne by (simp add: py_frozenset_def)
    have "py_eq (PDict [(K_TYPE, PStr (ustr ''frozenset'')),
             (K_VALUE, PList (map WorkingFormat_to_storage_format ys))]) (PDict kvs)"
      using d l f v p by (rule stored_set_eq)
    then have "py_eq (WorkingFormat_to_storage_format (PFrozenSet ys)) (PDict kvs)"
      by (simp only: WorkingFormat_to_storage_format.simps)
    with a show ?thesis by blast
  qed
qed

lemma store_load_roundtrip:
  "storage_doc d \<Longrightarrow> canonical ord d \<Longrightarrow>
   \<exists>w. StorageFormat_to_working_format ord d = Inr w \<and>
       py_eq (WorkingFormat_to_storage_format w) d"
proof (induction d rule: pyval_induct2)
  case (Dict kvs)
  from Dict.prems(1) have d: "distinct (map fst kvs)" and pk: "list_all plain_key (map fst kvs)"
    by simp_all
  show ?case
  proof (cases "set_tagged kvs")
    case True
    with Dict.prems(1) have l: "length kvs = 2" by simp
    from True Dict.prems(1) obtain xs where v: "map_of kvs K_VALUE = Some (PList xs)"
      and sx: "list_all storage_doc xs"
      by (auto split: option.splits pyval.splits)
    from True Dict.prems(2) v obtain ys where cx: "list_all (canonical ord) xs"
      and seq: "sequence (map (StorageFormat_to_working_format ord) xs) = Inr ys"
      and h: "list_all hashable ys" and c: "ord (dedup ys) = ys"
      by (auto split: sum.splits)
    from v have "(K_VALUE, PList xs) \<in> set kvs" by (rule map_of_SomeD)
    from Dict.IH[OF this] sx cx
    have ih: "\<exists>w. StorageFormat_to_working_format ord (PList xs) = Inr w \<and>
            py_eq (WorkingFormat_to_storage_format w) (PList xs)" by simp
    from d l True v seq h c ih show ?thesis by (rule store_load_set)
  next
    case False
    with Dict.prems have sv: "list_all (\<lambda>(k, v). storage_doc v) kvs"
      and cv: "list_all (\<lambda>(k, v). canonical ord v) kvs"
      by (auto split: if_splits)
    show ?thesis
    proof (rule store_load_items[OF d pk False])
      fix k v assume kv: "(k, v) \<in> set kvs"
      with sv cv have "storage_doc v" "canonical ord v" by (force simp: list_all_iff)+
      with Dict.IH[OF kv]
      show "\<exists>w. StorageFormat_to_working_format ord v = Inr w \<and>
            py_eq (WorkingFormat_to_storage_format w) v" by blast
    qed
  qed
next
  case (List xs)
  have "\<exists>ys. sequence (map (StorageFormat_to_working_format ord) xs) = Inr ys \<and>
          list_all2 (\<lambda>w x. py_eq (WorkingFormat_to_storage_format w) x) ys xs"
  proof (rule sequence_map_results)
    fix x assume x: "x \<in> set xs"
    with List.prems have "storage_doc x" "canonical ord x" by (simp_all add: list_all_iff)
    with List.IH[OF x]
    show "\<exists>w. StorageFormat_to_working_format ord x = Inr w \<and>
            py_eq (WorkingFormat_to_storage_format w) x" by blast
  qed
  then obtain ys where s: "sequence (map (StorageFormat_to_working_format ord) xs) = Inr ys"
    and p: "list_all2 (\<lambda>w x. py_eq (WorkingFormat_to_storage_format w) x) ys xs" by blast
  have a: "StorageFormat_to_working_format ord (PList xs) = Inr (PList ys)" using s by simp
  have b: "py_eq (WorkingFormat_to_storage_format (PList ys)) (PList xs)"
    using p by (simp add: list_all2_map1)
  from a b show ?case by blast
qed simp_all


subsection \<open>Object to Raw and back\<close>

lemma list_all2_same_elems: "list_all2 R xs ys \<Longrightarrow> same_elems R xs ys"
  by (induction rule: list_all2_induct) (auto simp: same_elems_def)

lemma decodes_canonical: "decodes (\<lambda>kvs. Inr (PObj n h kvs)) n h fs"
proof -
  have "py_eq (PObj n h kvs) (PObj n h fs)" if "list_all2 item_eq kvs fs" for kvs
    using list_all2_same_elems[OF that] by (simp only: py_eq_objs simp_thms)
  then show ?thesis
    unfolding decodes_def by blast
qed

lemma fields_shape:
  assumes "\<And>k v. (k, v) \<in> set kvs \<Longrightarrow> \<exists>r. f v = Inr r"
  shows "sequence (map (\<lambda>(k, v). case f v of Inl e \<Rightarrow> Inl e | Inr r \<Rightarrow> Inr (k, r)) kvs)
           = Inr (map (\<lambda>(k, v). (k, projr (f v))) kvs)"
proof (rule sequence_map_Inr)
  fix x assume x: "x \<in> set kvs"
  obtain k v where kv: "x = (k, v)" by (cases x)
  from assms[of k v] x kv obtain r where "f v = Inr r" by blast
  then show "(case x of (k, v) \<Rightarrow> (case f v of Inl e \<Rightarrow> Inl e | Inr r \<Rightarrow> Inr (k, r)))
           = Inr (case x of (k, v) \<Rightarrow> (k, projr (f v)))"
    using kv by simp
qed

lemma elems_shape:
  assumes "\<And>x. x \<in> set xs \<Longrightarrow> \<exists>r. f x = Inr r"
  shows "sequence (map f xs) = Inr (map (\<lambda>x. projr (f x)) xs)"
proof (rule sequence_map_Inr)
  fix x assume "x \<in> set xs"
  from assms[OF this] obtain r where "f x = Inr r" by blast
  then show "f x = Inr (projr (f x))" by simp
qed

lemma collect_shape:
  assumes "\<And>x. x \<in> set xs \<Longrightarrow> \<exists>r. f x = Inr r \<and> hashable r"
  shows "collect (map f xs) = Inr (map (\<lambda>x. projr (f x)) xs)"
  using assms
proof (induction xs)
  case Nil
  show ?case by simp
next
  case (Cons a xs)
  from Cons.prems[of a] obtain r where r: "f a = Inr r" "hashable r" by auto
  have "collect (map f xs) = Inr (map (\<lambda>x. projr (f x)) xs)"
    by (rule Cons.IH) (simp add: Cons.prems)
  then show ?case using r by simp
qed

lemma obj_to_raw_total:
  "obj_doc sct x \<Longrightarrow>
   \<exists>r. ObjFormat_to_raw_format ord x = Inr r \<and> (hashable x \<longrightarrow> hashable r)"
proof (induction x rule: pyval_induct2)
  case (Dict kvs)
  have "\<And>k v. (k, v) \<in> set kvs \<Longrightarrow> \<exists>r. ObjFormat_to_raw_format ord v = Inr r"
    using Dict by (fastforce simp: list_all_iff)
  from fields_shape[of kvs "ObjFormat_to_raw_format ord", OF this]
  show ?case by simp
next
  case (HashDict kvs)
  then show ?case by simp
next
  case (List xs)
  have "\<And>x. x \<in> set xs \<Longrightarrow> \<exists>r. ObjFormat_to_raw_format ord x = Inr r"
    using List by (fastforce simp: list_all_iff)
  from elems_shape[of xs "ObjFormat_to_raw_format ord", OF this]
  show ?case by simp
next
  case (Set xs)
  have "\<And>x. x \<in> set xs \<Longrightarrow> \<exists>r. ObjFormat_to_raw_format ord x = Inr r \<and> hashable r"
    using Set by (fastforce simp: list_all_iff)
  from collect_shape[of xs "ObjFormat_to_raw_format ord", OF this]
  show ?case by (simp add: py_set_map_def)
next
  case (FrozenSet xs)
  have "\<And>x. x \<in> set xs \<Longrightarrow> \<exists>r. ObjFormat_to_raw_format ord x = Inr r \<and> hashable r"
    using FrozenSet by (fastforce simp: list_all_iff)
  from collect_shape[of xs "ObjFormat_to_raw_format ord", OF this]
  show ?case by (simp add: py_frozenset_map_def)
next
  case (Obj n h fs)
  have el: "\<And>k v. (k, v) \<in> set fs \<Longrightarrow> \<exists>r. ObjFormat_to_raw_format ord v = Inr r"
    using Obj by (fastforce simp: list_all_iff)
  note sh = fields_shape[of fs "ObjFormat_to_raw_format ord", OF el]
  have nh: "K_HASH \<notin> fst ` set (map (\<lambda>(k, v). (k, projr (ObjFormat_to_raw_format ord v))) fs)"
    using Obj.prems by (force simp: image_iff)
  show ?case
  proof (cases h)
    case None
    then show ?thesis using sh by (simp only: obj_to_raw_unhashable) simp
  next
    case (Some hv)
    then show ?thesis using sh hash_in_literal(1)[OF nh, of "PStr n" "PInt hv"]
      by (simp only: obj_to_raw_hashable) simp
  qed
qed simp_all

lemma obj_doc_fields:
  "obj_doc sct (PObj n h fs) \<Longrightarrow> (k, v) \<in> set fs \<Longrightarrow> obj_doc sct v"
  "obj_doc sct (PDict kvs) \<Longrightarrow> (k, v) \<in> set kvs \<Longrightarrow> obj_doc sct v"
  by (auto simp: list_all_iff)

lemma obj_doc_elems:
  "obj_doc sct (PList xs) \<Longrightarrow> x \<in> set xs \<Longrightarrow> obj_doc sct x"
  "obj_doc sct (PSet xs) \<Longrightarrow> x \<in> set xs \<Longrightarrow> obj_doc sct x \<and> hashable x"
  "obj_doc sct (PFrozenSet xs) \<Longrightarrow> x \<in> set xs \<Longrightarrow> obj_doc sct x \<and> hashable x"
  by (auto simp: list_all_iff)

lemma obj_to_raw_fields:
  assumes "\<And>k v. (k, v) \<in> set kvs \<Longrightarrow> obj_doc sct v"
  shows "sequence (map (\<lambda>(k, v). case ObjFormat_to_raw_format ord v of
                                     Inl e \<Rightarrow> Inl e | Inr r \<Rightarrow> Inr (k, r)) kvs)
           = Inr (map (\<lambda>(k, v). (k, projr (ObjFormat_to_raw_format ord v))) kvs)"
proof (rule fields_shape)
  fix k v assume "(k, v) \<in> set kvs"
  then have "obj_doc sct v" by (rule assms)
  from obj_to_raw_total[OF this, of ord]
  show "\<exists>r. ObjFormat_to_raw_format ord v = Inr r" by blast
qed

lemma obj_to_raw_dict:
  assumes "obj_doc sct (PDict kvs)"
  shows "ObjFormat_to_raw_format ord (PDict kvs)
           = Inr (PDict (map (\<lambda>(k, v). (k, projr (ObjFormat_to_raw_format ord v))) kvs))"
  using obj_to_raw_fields[of kvs sct ord, OF obj_doc_fields(2)[OF assms]] by simp

lemma literal_keys:
  assumes "distinct (map fst fs)" "K_TYPE \<notin> fst ` set fs" "K_HASH \<notin> fst ` set fs"
  shows "dict_of_items ((K_TYPE, a) # map (\<lambda>(k, v). (k, g v)) fs)
           = (K_TYPE, a) # map (\<lambda>(k, v). (k, g v)) fs"
    and "dict_of_items ((K_TYPE, a) # (K_HASH, b) # map (\<lambda>(k, v). (k, g v)) fs)
           = (K_TYPE, a) # (K_HASH, b) # map (\<lambda>(k, v). (k, g v)) fs"
proof -
  have m: "map fst (map (\<lambda>(k, v). (k, g v)) fs) = map fst fs"
    by (induction fs) auto
  show "dict_of_items ((K_TYPE, a) # map (\<lambda>(k, v). (k, g v)) fs)
           = (K_TYPE, a) # map (\<lambda>(k, v). (k, g v)) fs"
    by (rule dict_of_items_distinct) (use assms m in \<open>simp del: map_map\<close>)
  show "dict_of_items ((K_TYPE, a) # (K_HASH, b) # map (\<lambda>(k, v). (k, g v)) fs)
           = (K_TYPE, a) # (K_HASH, b) # map (\<lambda>(k, v). (k, g v)) fs"
    by (rule dict_of_items_distinct) (use assms m in \<open>simp del: map_map\<close>)
qed

lemma obj_to_raw_obj:
  assumes "obj_doc sct (PObj n h fs)"
  shows "ObjFormat_to_raw_format ord (PObj n None fs)
           = Inr (PDict ((K_TYPE, PStr n) #
                   map (\<lambda>(k, v). (k, projr (ObjFormat_to_raw_format ord v))) fs))"
    and "ObjFormat_to_raw_format ord (PObj n (Some hv) fs)
           = Inr (PHashDict ((K_TYPE, PStr n) # (K_HASH, PInt hv) #
                   map (\<lambda>(k, v). (k, projr (ObjFormat_to_raw_format ord v))) fs))"
proof -
  note sh = obj_to_raw_fields[of fs sct ord, OF obj_doc_fields(1)[OF assms]]
  have d: "distinct (map fst fs)" "K_TYPE \<notin> fst ` set fs" "K_HASH \<notin> fst ` set fs"
    using assms by simp_all
  show "ObjFormat_to_raw_format ord (PObj n None fs)
           = Inr (PDict ((K_TYPE, PStr n) #
                   map (\<lambda>(k, v). (k, projr (ObjFormat_to_raw_format ord v))) fs))"
    using sh literal_keys(1)[OF d, of "PStr n" "\<lambda>v. projr (ObjFormat_to_raw_format ord v)"]
    by (simp only: obj_to_raw_unhashable) simp
  show "ObjFormat_to_raw_format ord (PObj n (Some hv) fs)
           = Inr (PHashDict ((K_TYPE, PStr n) # (K_HASH, PInt hv) #
                   map (\<lambda>(k, v). (k, projr (ObjFormat_to_raw_format ord v))) fs))"
    using sh literal_keys(2)[OF d, of "PStr n" "PInt hv" "\<lambda>v. projr (ObjFormat_to_raw_format ord v)"]
    by (simp only: obj_to_raw_hashable) simp
qed

lemma obj_to_raw_list:
  assumes "obj_doc sct (PList xs)"
  shows "ObjFormat_to_raw_format ord (PList xs)
           = Inr (PList (map (\<lambda>x. projr (ObjFormat_to_raw_format ord x)) xs))"
proof -
  have "sequence (map (ObjFormat_to_raw_format ord) xs)
          = Inr (map (\<lambda>x. projr (ObjFormat_to_raw_format ord x)) xs)"
  proof (rule elems_shape)
    fix x assume "x \<in> set xs"
    from obj_to_raw_total[OF obj_doc_elems(1)[OF assms this], of ord]
    show "\<exists>r. ObjFormat_to_raw_format ord x = Inr r" by blast
  qed
  then show ?thesis by simp
qed

lemma obj_to_raw_elems:
  assumes "\<And>x. x \<in> set xs \<Longrightarrow> obj_doc sct x \<and> hashable x"
  shows "collect (map (ObjFormat_to_raw_format ord) xs)
          = Inr (map (\<lambda>x. projr (ObjFormat_to_raw_format ord x)) xs)"
proof (rule collect_shape)
  fix x assume "x \<in> set xs"
  from assms[OF this] obj_to_raw_total[of sct x ord]
  show "\<exists>r. ObjFormat_to_raw_format ord x = Inr r \<and> hashable r" by blast
qed

lemma obj_to_raw_set:
  assumes "obj_doc sct (PSet xs)"
  shows "ObjFormat_to_raw_format ord (PSet xs)
           = Inr (PSet (ord (dedup (map (\<lambda>x. projr (ObjFormat_to_raw_format ord x)) xs))))"
  using obj_to_raw_elems[of xs sct ord, OF obj_doc_elems(2)[OF assms]]
  by (simp add: py_set_map_def)

lemma obj_to_raw_frozenset:
  assumes "obj_doc sct (PFrozenSet xs)"
  shows "ObjFormat_to_raw_format ord (PFrozenSet xs)
           = Inr (PFrozenSet (ord (dedup (map (\<lambda>x. projr (ObjFormat_to_raw_format ord x)) xs))))"
  using obj_to_raw_elems[of xs sct ord, OF obj_doc_elems(3)[OF assms]]
  by (simp add: py_frozenset_map_def)

lemma obj_to_raw_cases [consumes 1, case_names Dict Obj HashObj List Set FrozenSet Scalar]:
  assumes d: "obj_doc sct y"
  obtains
    (Dict) kvs where "y = PDict kvs"
      "projr (ObjFormat_to_raw_format ord y)
         = PDict (map (\<lambda>(k, v). (k, projr (ObjFormat_to_raw_format ord v))) kvs)"
  | (Obj) n fs where "y = PObj n None fs"
      "projr (ObjFormat_to_raw_format ord y)
         = PDict ((K_TYPE, PStr n) #
             map (\<lambda>(k, v). (k, projr (ObjFormat_to_raw_format ord v))) fs)"
  | (HashObj) n hv fs where "y = PObj n (Some hv) fs"
      "projr (ObjFormat_to_raw_format ord y)
         = PHashDict ((K_TYPE, PStr n) # (K_HASH, PInt hv) #
             map (\<lambda>(k, v). (k, projr (ObjFormat_to_raw_format ord v))) fs)"
  | (List) xs where "y = PList xs"
      "projr (ObjFormat_to_raw_format ord y)
         = PList (map (\<lambda>x. projr (ObjFormat_to_raw_format ord x)) xs)"
  | (Set) xs where "y = PSet xs"
      "projr (ObjFormat_to_raw_format ord y)
         = PSet (ord (dedup (map (\<lambda>x. projr (ObjFormat_to_raw_format ord x)) xs)))"
  | (FrozenSet) xs where "y = PFrozenSet xs"
      "projr (ObjFormat_to_raw_format ord y)
         = PFrozenSet (ord (dedup (map (\<lambda>x. projr (ObjFormat_to_raw_format ord x)) xs)))"
  | (Scalar) "projr (ObjFormat_to_raw_format ord y) = y"
      "case y of PDict kvs \<Rightarrow> False | PHashDict kvs \<Rightarrow> False | PList xs \<Rightarrow> False
               | PSet xs \<Rightarrow> False | PFrozenSet xs \<Rightarrow> False | PObj n h fs \<Rightarrow> False
               | _ \<Rightarrow> True"
proof (cases y)
  case (PDict kvs)
  from obj_to_raw_dict[OF d[unfolded PDict], of ord] PDict show ?thesis
    by (intro Dict[of kvs]) (simp_all only: sum.sel)
next
  case (PHashDict kvs)
  with d show ?thesis by simp
next
  case (PList xs)
  from obj_to_raw_list[OF d[unfolded PList], of ord] PList show ?thesis
    by (intro List[of xs]) (simp_all only: sum.sel)
next
  case (PSet xs)
  from obj_to_raw_set[OF d[unfolded PSet], of ord] PSet show ?thesis
    by (intro Set[of xs]) (simp_all only: sum.sel)
next
  case (PFrozenSet xs)
  from obj_to_raw_frozenset[OF d[unfolded PFrozenSet], of ord] PFrozenSet show ?thesis
    by (intro FrozenSet[of xs]) (simp_all only: sum.sel)
next
  case (PObj n h fs)
  show ?thesis
  proof (cases h)
    case None
    from obj_to_raw_obj(1)[OF d[unfolded PObj], of ord] PObj None show ?thesis
      by (intro Obj[of n fs]) (simp_all only: sum.sel)
  next
    case (Some hv)
    from obj_to_raw_obj(2)[OF d[unfolded PObj], of ord hv] PObj Some show ?thesis
      by (intro HashObj[of n hv fs]) (simp_all only: sum.sel)
  qed
qed (rule Scalar; simp)+

lemma same_elems_map_reflect:
  assumes "\<And>a b. a \<in> set xs \<Longrightarrow> b \<in> set ys \<Longrightarrow> R' (f a) (f b) \<Longrightarrow> R a b"
    and "same_elems R' (map f xs) (map f ys)"
  shows "same_elems R xs ys"
  using assms unfolding same_elems_def by (simp only: set_map ball_simps bex_simps) meson

lemma list_all2_map_reflect:
  assumes "\<And>a b. a \<in> set xs \<Longrightarrow> b \<in> set ys \<Longrightarrow> R' (f a) (f b) \<Longrightarrow> R a b"
    and "list_all2 R' (map f xs) (map f ys)"
  shows "list_all2 R xs ys"
proof -
  from assms(2) have "list_all2 (\<lambda>a b. R' (f a) (f b)) xs ys"
    by (simp add: list_all2_map1 list_all2_map2)
  then show ?thesis
    by (rule list.rel_mono_strong) (rule assms(1))
qed

lemma dedup_same_elems:
  assumes "set_order ord"
  shows "same_elems py_eq (ord (dedup xs)) xs"
proof (rule rebuilt_set_same_elems[OF assms])
  show "list_all2 py_eq xs xs"
    by (rule list_all2_refl) (rule py_eq_refl)
qed

lemma sets_reflect:
  assumes so: "set_order ord" and e: "same_elems py_eq (ord (dedup xs)) (ord (dedup ys))"
  shows "same_elems py_eq xs ys"
proof -
  have tr: "\<And>zs x y z. x \<in> set zs \<Longrightarrow> py_eq x y \<Longrightarrow> py_eq y z \<Longrightarrow> py_eq x z"
    by (rule py_eq_trans)
  have sy: "\<And>zs x y. x \<in> set zs \<Longrightarrow> py_eq x y \<Longrightarrow> py_eq y x"
    by (rule py_eq_sym)
  have 1: "same_elems py_eq xs (ord (dedup xs))"
    by (rule same_elems_sym[OF sy dedup_same_elems[OF so]])
  have 2: "same_elems py_eq xs (ord (dedup ys))"
    by (rule same_elems_trans[OF tr 1 e])
  show ?thesis
    by (rule same_elems_trans[OF tr 2 dedup_same_elems[OF so]])
qed

lemma literal_items_eq:
  assumes e: "same_elems item_eq (P @ A) (P' @ B)"
    and p: "fst ` set P \<subseteq> S" "fst ` set P' \<subseteq> S"
    and a: "fst ` set A \<inter> S = {}" "fst ` set B \<inter> S = {}"
  shows "same_elems item_eq P P'" and "same_elems item_eq A B"
proof -
  have k: "\<And>x y. item_eq x y \<Longrightarrow> fst x = fst y"
    by (simp add: item_eq_def)
  have inP: "\<And>x. x \<in> set P \<Longrightarrow> fst x \<in> S" "\<And>x. x \<in> set P' \<Longrightarrow> fst x \<in> S"
    using p by auto
  have inA: "\<And>x. x \<in> set A \<Longrightarrow> fst x \<notin> S" "\<And>x. x \<in> set B \<Longrightarrow> fst x \<notin> S"
    using a by auto
  from e have f: "\<And>x. x \<in> set P \<or> x \<in> set A \<Longrightarrow> \<exists>y. (y \<in> set P' \<or> y \<in> set B) \<and> item_eq x y"
    and b: "\<And>y. y \<in> set P' \<or> y \<in> set B \<Longrightarrow> \<exists>x. (x \<in> set P \<or> x \<in> set A) \<and> item_eq x y"
    unfolding same_elems_def by (simp_all only: set_append Un_iff Bex_def Ball_def)
  show "same_elems item_eq P P'"
    unfolding same_elems_def
  proof (intro conjI ballI)
    fix x assume x: "x \<in> set P"
    from f[of x] x obtain y where y: "y \<in> set P' \<or> y \<in> set B" "item_eq x y" by blast
    from k[OF y(2)] inP(1)[OF x] have "fst y \<in> S" by simp
    with inA(2)[of y] y(1) have "y \<in> set P'" by blast
    with y(2) show "\<exists>y\<in>set P'. item_eq x y" by blast
  next
    fix y assume y: "y \<in> set P'"
    from b[of y] y obtain x where x: "x \<in> set P \<or> x \<in> set A" "item_eq x y" by blast
    from k[OF x(2)] inP(2)[OF y] have "fst x \<in> S" by simp
    with inA(1)[of x] x(1) have "x \<in> set P" by blast
    with x(2) show "\<exists>x\<in>set P. item_eq x y" by blast
  qed
  show "same_elems item_eq A B"
    unfolding same_elems_def
  proof (intro conjI ballI)
    fix x assume x: "x \<in> set A"
    from f[of x] x obtain y where y: "y \<in> set P' \<or> y \<in> set B" "item_eq x y" by blast
    from k[OF y(2)] inA(1)[OF x] have "fst y \<notin> S" by simp
    with inP(2)[of y] y(1) have "y \<in> set B" by blast
    with y(2) show "\<exists>y\<in>set B. item_eq x y" by blast
  next
    fix y assume y: "y \<in> set B"
    from b[of y] y obtain x where x: "x \<in> set P \<or> x \<in> set A" "item_eq x y" by blast
    from k[OF x(2)] inA(2)[OF y] have "fst x \<notin> S" by simp
    with inP(1)[of x] x(1) have "x \<in> set A" by blast
    with x(2) show "\<exists>x\<in>set A. item_eq x y" by blast
  qed
qed

lemma raw_string:
  assumes "obj_doc sct t" and "projr (ObjFormat_to_raw_format ord t) = PStr n"
  shows "t = PStr n"
  using assms(1)
proof (cases rule: obj_to_raw_cases[where ord = ord])
  case Scalar
  with assms(2) show ?thesis by simp
qed (use assms(2) in simp_all)

lemma obj_dict_differ:
  assumes o: "obj_doc sct (PObj n h fs)" and d: "obj_doc sct (PDict kvs)"
    and m: "(K_TYPE, PStr n) \<in> set (map (\<lambda>(k, v). (k, projr (ObjFormat_to_raw_format ord v))) kvs)"
  shows False
proof -
  from m obtain t where t: "(K_TYPE, t) \<in> set kvs" "projr (ObjFormat_to_raw_format ord t) = PStr n"
    by auto
  from obj_doc_fields(2)[OF d t(1)] t(2) have "t = PStr n"
    by (rule raw_string)
  moreover have "distinct (map fst kvs)" using d by simp
  ultimately have "map_of kvs K_TYPE = Some (PStr n)"
    using t(1) by simp
  then have "map_of sct n = None" using d by simp
  then show False using o by simp
qed

lemma scalar_eq_raw:
  assumes dy: "obj_doc sct y"
    and sc: "case x of PDict kvs \<Rightarrow> False | PHashDict kvs \<Rightarrow> False | PList xs \<Rightarrow> False
               | PSet xs \<Rightarrow> False | PFrozenSet xs \<Rightarrow> False | PObj n h fs \<Rightarrow> False
               | _ \<Rightarrow> True"
    and e: "py_eq x (projr (ObjFormat_to_raw_format ord y))"
  shows "py_eq x y"
  using dy
proof (cases rule: obj_to_raw_cases[where ord = ord])
  case Scalar
  with e show ?thesis by simp
qed (use sc e in \<open>cases x; simp\<close>)+

lemma raw_eq_scalar:
  assumes sc: "case y of PDict kvs \<Rightarrow> False | PHashDict kvs \<Rightarrow> False | PList xs \<Rightarrow> False
               | PSet xs \<Rightarrow> False | PFrozenSet xs \<Rightarrow> False | PObj n h fs \<Rightarrow> False
               | _ \<Rightarrow> True"
  shows "\<not> py_eq (PDict kvs) y" "\<not> py_eq (PHashDict kvs) y" "\<not> py_eq (PList xs) y"
    "\<not> py_eq (PSet xs) y" "\<not> py_eq (PFrozenSet xs) y"
  using sc by (cases y; simp)+

lemma item_eq_raw:
  assumes ih: "\<And>k v y. (k, v) \<in> set kvs \<Longrightarrow> obj_doc sct v \<Longrightarrow> obj_doc sct y \<Longrightarrow>
        py_eq (projr (ObjFormat_to_raw_format ord v)) (projr (ObjFormat_to_raw_format ord y)) \<Longrightarrow>
        py_eq v y"
    and dx: "\<And>k v. (k, v) \<in> set kvs \<Longrightarrow> obj_doc sct v"
    and dy: "\<And>k v. (k, v) \<in> set kvs' \<Longrightarrow> obj_doc sct v"
    and e: "same_elems item_eq
              (map (\<lambda>(k, v). (k, projr (ObjFormat_to_raw_format ord v))) kvs)
              (map (\<lambda>(k, v). (k, projr (ObjFormat_to_raw_format ord v))) kvs')"
  shows "same_elems item_eq kvs kvs'"
proof (rule same_elems_map_reflect[OF _ e])
  fix a b assume a: "a \<in> set kvs" and b: "b \<in> set kvs'"
    and ab: "item_eq (case a of (k, v) \<Rightarrow> (k, projr (ObjFormat_to_raw_format ord v)))
                     (case b of (k, v) \<Rightarrow> (k, projr (ObjFormat_to_raw_format ord v)))"
  obtain k v where kv: "a = (k, v)" by (cases a)
  obtain k' v' where kv': "b = (k', v')" by (cases b)
  from ab kv kv' have k: "k = k'"
    and p: "py_eq (projr (ObjFormat_to_raw_format ord v)) (projr (ObjFormat_to_raw_format ord v'))"
    by (simp_all add: item_eq_def)
  have "py_eq v v'"
    using a b kv kv' by (intro ih[of k v v'] dx[of k v] dy[of k' v'] p) simp_all
  with k kv kv' show "item_eq a b" by (simp add: item_eq_def)
qed

lemma type_item:
  "same_elems item_eq L ((K_TYPE, PStr n) # R) \<Longrightarrow> (K_TYPE, PStr n) \<in> set L"
  "same_elems item_eq ((K_TYPE, PStr n) # R) L \<Longrightarrow> (K_TYPE, PStr n) \<in> set L"
proof -
  assume "same_elems item_eq L ((K_TYPE, PStr n) # R)"
  then obtain it where it: "it \<in> set L" "item_eq it (K_TYPE, PStr n)"
    unfolding same_elems_def by auto
  obtain k w where kw: "it = (k, w)" by (cases it)
  from it(2) kw have "k = K_TYPE" "py_eq w (PStr n)" by (simp_all add: item_eq_def)
  from py_eq_sym[OF this(2)] have "w = PStr n" by simp
  with it(1) kw \<open>k = K_TYPE\<close> show "(K_TYPE, PStr n) \<in> set L" by simp
next
  assume "same_elems item_eq ((K_TYPE, PStr n) # R) L"
  then obtain it where it: "it \<in> set L" "item_eq (K_TYPE, PStr n) it"
    unfolding same_elems_def by auto
  obtain k w where kw: "it = (k, w)" by (cases it)
  from it(2) kw have "k = K_TYPE" "w = PStr n" by (simp_all add: item_eq_def)
  with it(1) kw show "(K_TYPE, PStr n) \<in> set L" by simp
qed

lemma keys_map_values: "fst ` set (map (\<lambda>(k, v). (k, g v)) fs) = fst ` set fs"
  by force

lemma literal_prefix_eq:
  assumes "same_elems item_eq
             ((K_TYPE, PStr n) # (case h of None \<Rightarrow> [] | Some hv \<Rightarrow> [(K_HASH, PInt hv)]))
             ((K_TYPE, PStr n') # (case h' of None \<Rightarrow> [] | Some hv \<Rightarrow> [(K_HASH, PInt hv)]))"
  shows "n = n' \<and> h = h'"
  using assms by (cases h; cases h') (auto simp: same_elems_def item_eq_def)

lemma obj_raw_eq:
  assumes ih: "\<And>k v y. (k, v) \<in> set fs \<Longrightarrow> obj_doc sct v \<Longrightarrow> obj_doc sct y \<Longrightarrow>
        py_eq (projr (ObjFormat_to_raw_format ord v)) (projr (ObjFormat_to_raw_format ord y)) \<Longrightarrow>
        py_eq v y"
    and dx: "obj_doc sct (PObj n h fs)" and dy: "obj_doc sct (PObj n' h' fs')"
    and e: "same_elems item_eq
             (((K_TYPE, PStr n) # (case h of None \<Rightarrow> [] | Some hv \<Rightarrow> [(K_HASH, PInt hv)])) @
                map (\<lambda>(k, v). (k, projr (ObjFormat_to_raw_format ord v))) fs)
             (((K_TYPE, PStr n') # (case h' of None \<Rightarrow> [] | Some hv \<Rightarrow> [(K_HASH, PInt hv)])) @
                map (\<lambda>(k, v). (k, projr (ObjFormat_to_raw_format ord v))) fs')"
  shows "py_eq (PObj n h fs) (PObj n' h' fs')"
proof -
  have p: "fst ` set ((K_TYPE, PStr n) # (case h of None \<Rightarrow> [] | Some hv \<Rightarrow> [(K_HASH, PInt hv)]))
             \<subseteq> {K_TYPE, K_HASH}"
    "fst ` set ((K_TYPE, PStr n') # (case h' of None \<Rightarrow> [] | Some hv \<Rightarrow> [(K_HASH, PInt hv)]))
             \<subseteq> {K_TYPE, K_HASH}"
    by (cases h; simp) (cases h'; simp)
  have a: "fst ` set (map (\<lambda>(k, v). (k, projr (ObjFormat_to_raw_format ord v))) fs)
             \<inter> {K_TYPE, K_HASH} = {}"
    "fst ` set (map (\<lambda>(k, v). (k, projr (ObjFormat_to_raw_format ord v))) fs')
             \<inter> {K_TYPE, K_HASH} = {}"
    using dx dy by (simp_all only: keys_map_values) simp_all
  note l = literal_items_eq[OF e p a]
  from literal_prefix_eq[OF l(1)] have nh: "n = n'" "h = h'" by simp_all
  have "same_elems item_eq fs fs'"
  proof (rule item_eq_raw[where sct = sct and ord = ord])
    show "same_elems item_eq
            (map (\<lambda>(k, v). (k, projr (ObjFormat_to_raw_format ord v))) fs)
            (map (\<lambda>(k, v). (k, projr (ObjFormat_to_raw_format ord v))) fs')"
      by (rule l(2))
  next
    fix k v y
    assume "(k, v) \<in> set fs" "obj_doc sct v" "obj_doc sct y"
      "py_eq (projr (ObjFormat_to_raw_format ord v)) (projr (ObjFormat_to_raw_format ord y))"
    then show "py_eq v y" by (rule ih)
  next
    fix k v assume "(k, v) \<in> set fs"
    with dx show "obj_doc sct v" by (rule obj_doc_fields(1))
  next
    fix k v assume "(k, v) \<in> set fs'"
    with dy show "obj_doc sct v" by (rule obj_doc_fields(1))
  qed
  with nh show ?thesis by (simp only: py_eq_objs simp_thms)
qed

lemma obj_to_raw_reflects_eq:
  assumes so: "set_order ord"
  shows "obj_doc sct x \<Longrightarrow> obj_doc sct y \<Longrightarrow>
     py_eq (projr (ObjFormat_to_raw_format ord x)) (projr (ObjFormat_to_raw_format ord y)) \<Longrightarrow>
     py_eq x y"
proof (induction x arbitrary: y rule: pyval_induct2)
  case (Dict kvs)
  note ih = Dict.IH and dx = Dict.prems(1) and dy = Dict.prems(2)
  have ex: "projr (ObjFormat_to_raw_format ord (PDict kvs))
              = PDict (map (\<lambda>(k, v). (k, projr (ObjFormat_to_raw_format ord v))) kvs)"
    using obj_to_raw_dict[OF dx, of ord] by (simp only: sum.sel)
  note pe = Dict.prems(3)[unfolded ex]
  from dy show ?case
  proof (cases rule: obj_to_raw_cases[where ord = ord])
    case (Dict kvs')
    note dy' = dy[unfolded Dict(1)]
    from pe[unfolded Dict(2)]
    have e: "same_elems item_eq
               (map (\<lambda>(k, v). (k, projr (ObjFormat_to_raw_format ord v))) kvs)
               (map (\<lambda>(k, v). (k, projr (ObjFormat_to_raw_format ord v))) kvs')"
      by (simp only: py_eq_dicts)
    have "same_elems item_eq kvs kvs'"
    proof (rule item_eq_raw[where sct = sct and ord = ord])
      show "same_elems item_eq
              (map (\<lambda>(k, v). (k, projr (ObjFormat_to_raw_format ord v))) kvs)
              (map (\<lambda>(k, v). (k, projr (ObjFormat_to_raw_format ord v))) kvs')"
        by (rule e)
    next
      fix k v y
      assume "(k, v) \<in> set kvs" "obj_doc sct v" "obj_doc sct y"
        "py_eq (projr (ObjFormat_to_raw_format ord v)) (projr (ObjFormat_to_raw_format ord y))"
      then show "py_eq v y" by (rule ih)
    next
      fix k v assume "(k, v) \<in> set kvs"
      with dx show "obj_doc sct v" by (rule obj_doc_fields(2))
    next
      fix k v assume "(k, v) \<in> set kvs'"
      with dy' show "obj_doc sct v" by (rule obj_doc_fields(2))
    qed
    then show ?thesis unfolding Dict(1) by (simp only: py_eq_dicts)
  next
    case (Obj n fs)
    from pe[unfolded Obj(2)] have "(K_TYPE, PStr n)
        \<in> set (map (\<lambda>(k, v). (k, projr (ObjFormat_to_raw_format ord v))) kvs)"
      by (simp only: py_eq_dicts) (rule type_item(1))
    with obj_dict_differ[OF dy[unfolded Obj(1)] dx] show ?thesis by blast
  next
    case (HashObj n hv fs)
    from pe[unfolded HashObj(2)] have "(K_TYPE, PStr n)
        \<in> set (map (\<lambda>(k, v). (k, projr (ObjFormat_to_raw_format ord v))) kvs)"
      by (simp only: py_eq_dicts) (rule type_item(1))
    with obj_dict_differ[OF dy[unfolded HashObj(1)] dx] show ?thesis by blast
  next
    case (List ys)
    from pe[unfolded List(2)] show ?thesis by simp
  next
    case (Set ys)
    from pe[unfolded Set(2)] show ?thesis by simp
  next
    case (FrozenSet ys)
    from pe[unfolded FrozenSet(2)] show ?thesis by simp
  next
    case Scalar
    from pe[unfolded Scalar(1)] raw_eq_scalar(1)[OF Scalar(2)] show ?thesis by blast
  qed
next
  case (HashDict kvs)
  then show ?case by simp
next
  case (List xs)
  note ih = List.IH and dx = List.prems(1) and dy = List.prems(2)
  have ex: "projr (ObjFormat_to_raw_format ord (PList xs))
              = PList (map (\<lambda>x. projr (ObjFormat_to_raw_format ord x)) xs)"
    using obj_to_raw_list[OF dx, of ord] by (simp only: sum.sel)
  note pe = List.prems(3)[unfolded ex]
  from dy show ?case
  proof (cases rule: obj_to_raw_cases[where ord = ord])
    case (List ys)
    note dy' = dy[unfolded List(1)]
    from pe[unfolded List(2)]
    have e: "list_all2 py_eq (map (\<lambda>x. projr (ObjFormat_to_raw_format ord x)) xs)
                             (map (\<lambda>x. projr (ObjFormat_to_raw_format ord x)) ys)"
      by simp
    have "list_all2 py_eq xs ys"
    proof (rule list_all2_map_reflect[OF _ e])
      fix a b assume a: "a \<in> set xs" and b: "b \<in> set ys"
        and ab: "py_eq (projr (ObjFormat_to_raw_format ord a)) (projr (ObjFormat_to_raw_format ord b))"
      from a obj_doc_elems(1)[OF dx a] obj_doc_elems(1)[OF dy' b] ab
      show "py_eq a b" by (rule ih)
    qed
    then show ?thesis unfolding List(1) by simp
  next
    case (Dict kvs)
    from pe[unfolded Dict(2)] show ?thesis by simp
  next
    case (Obj n fs)
    from pe[unfolded Obj(2)] show ?thesis by simp
  next
    case (HashObj n hv fs)
    from pe[unfolded HashObj(2)] show ?thesis by simp
  next
    case (Set ys)
    from pe[unfolded Set(2)] show ?thesis by simp
  next
    case (FrozenSet ys)
    from pe[unfolded FrozenSet(2)] show ?thesis by simp
  next
    case Scalar
    from pe[unfolded Scalar(1)] raw_eq_scalar(3)[OF Scalar(2)] show ?thesis by blast
  qed
next
  case (Set xs)
  note ih = Set.IH and dx = Set.prems(1) and dy = Set.prems(2)
  have ex: "projr (ObjFormat_to_raw_format ord (PSet xs))
              = PSet (ord (dedup (map (\<lambda>x. projr (ObjFormat_to_raw_format ord x)) xs)))"
    using obj_to_raw_set[OF dx, of ord] by (simp only: sum.sel)
  note pe = Set.prems(3)[unfolded ex]
  have refl: "same_elems py_eq xs ys"
    if e: "same_elems py_eq
             (ord (dedup (map (\<lambda>x. projr (ObjFormat_to_raw_format ord x)) xs)))
             (ord (dedup (map (\<lambda>x. projr (ObjFormat_to_raw_format ord x)) ys)))"
      and el: "\<And>y. y \<in> set ys \<Longrightarrow> obj_doc sct y \<and> hashable y" for ys
  proof (rule same_elems_map_reflect[OF _ sets_reflect[OF so e]])
    fix a b assume a: "a \<in> set xs" and b: "b \<in> set ys"
      and ab: "py_eq (projr (ObjFormat_to_raw_format ord a)) (projr (ObjFormat_to_raw_format ord b))"
    from obj_doc_elems(2)[OF dx a] have da: "obj_doc sct a" by simp
    from el[OF b] have db: "obj_doc sct b" by simp
    from a da db ab show "py_eq a b" by (rule ih)
  qed
  from dy show ?case
  proof (cases rule: obj_to_raw_cases[where ord = ord])
    case (Set ys)
    from pe[unfolded Set(2)] have "same_elems py_eq xs ys"
      by (simp only: py_eq_sets) (rule refl, assumption, rule obj_doc_elems(2)[OF dy[unfolded Set(1)]])
    then show ?thesis unfolding Set(1) by (simp only: py_eq_sets)
  next
    case (FrozenSet ys)
    from pe[unfolded FrozenSet(2)] have "same_elems py_eq xs ys"
      by (simp only: py_eq_sets) (rule refl, assumption, rule obj_doc_elems(3)[OF dy[unfolded FrozenSet(1)]])
    then show ?thesis unfolding FrozenSet(1) by (simp only: py_eq_sets)
  next
    case (Dict kvs)
    from pe[unfolded Dict(2)] show ?thesis by simp
  next
    case (Obj n fs)
    from pe[unfolded Obj(2)] show ?thesis by simp
  next
    case (HashObj n hv fs)
    from pe[unfolded HashObj(2)] show ?thesis by simp
  next
    case (List ys)
    from pe[unfolded List(2)] show ?thesis by simp
  next
    case Scalar
    from pe[unfolded Scalar(1)] raw_eq_scalar(4)[OF Scalar(2)] show ?thesis by blast
  qed
next
  case (FrozenSet xs)
  note ih = FrozenSet.IH and dx = FrozenSet.prems(1) and dy = FrozenSet.prems(2)
  have ex: "projr (ObjFormat_to_raw_format ord (PFrozenSet xs))
              = PFrozenSet (ord (dedup (map (\<lambda>x. projr (ObjFormat_to_raw_format ord x)) xs)))"
    using obj_to_raw_frozenset[OF dx, of ord] by (simp only: sum.sel)
  note pe = FrozenSet.prems(3)[unfolded ex]
  have refl: "same_elems py_eq xs ys"
    if e: "same_elems py_eq
             (ord (dedup (map (\<lambda>x. projr (ObjFormat_to_raw_format ord x)) xs)))
             (ord (dedup (map (\<lambda>x. projr (ObjFormat_to_raw_format ord x)) ys)))"
      and el: "\<And>y. y \<in> set ys \<Longrightarrow> obj_doc sct y \<and> hashable y" for ys
  proof (rule same_elems_map_reflect[OF _ sets_reflect[OF so e]])
    fix a b assume a: "a \<in> set xs" and b: "b \<in> set ys"
      and ab: "py_eq (projr (ObjFormat_to_raw_format ord a)) (projr (ObjFormat_to_raw_format ord b))"
    from obj_doc_elems(3)[OF dx a] have da: "obj_doc sct a" by simp
    from el[OF b] have db: "obj_doc sct b" by simp
    from a da db ab show "py_eq a b" by (rule ih)
  qed
  from dy show ?case
  proof (cases rule: obj_to_raw_cases[where ord = ord])
    case (Set ys)
    from pe[unfolded Set(2)] have "same_elems py_eq xs ys"
      by (simp only: py_eq_sets) (rule refl, assumption, rule obj_doc_elems(2)[OF dy[unfolded Set(1)]])
    then show ?thesis unfolding Set(1) by (simp only: py_eq_sets)
  next
    case (FrozenSet ys)
    from pe[unfolded FrozenSet(2)] have "same_elems py_eq xs ys"
      by (simp only: py_eq_sets) (rule refl, assumption, rule obj_doc_elems(3)[OF dy[unfolded FrozenSet(1)]])
    then show ?thesis unfolding FrozenSet(1) by (simp only: py_eq_sets)
  next
    case (Dict kvs)
    from pe[unfolded Dict(2)] show ?thesis by simp
  next
    case (Obj n fs)
    from pe[unfolded Obj(2)] show ?thesis by simp
  next
    case (HashObj n hv fs)
    from pe[unfolded HashObj(2)] show ?thesis by simp
  next
    case (List ys)
    from pe[unfolded List(2)] show ?thesis by simp
  next
    case Scalar
    from pe[unfolded Scalar(1)] raw_eq_scalar(5)[OF Scalar(2)] show ?thesis by blast
  qed
next
  case (Obj n h fs)
  note ih = Obj.IH and dx = Obj.prems(1) and dy = Obj.prems(2)
  have ex: "\<exists>L. (projr (ObjFormat_to_raw_format ord (PObj n h fs)) = PDict L \<or>
                  projr (ObjFormat_to_raw_format ord (PObj n h fs)) = PHashDict L) \<and>
                 L = ((K_TYPE, PStr n) # (case h of None \<Rightarrow> [] | Some hv \<Rightarrow> [(K_HASH, PInt hv)])) @
                       map (\<lambda>(k, v). (k, projr (ObjFormat_to_raw_format ord v))) fs"
  proof (cases h)
    case None
    with obj_to_raw_obj(1)[OF dx, of ord] show ?thesis by (simp only: sum.sel) simp
  next
    case (Some hv)
    with obj_to_raw_obj(2)[OF dx, of ord hv] show ?thesis by (simp only: sum.sel) simp
  qed
  then obtain L where L: "projr (ObjFormat_to_raw_format ord (PObj n h fs)) = PDict L \<or>
                  projr (ObjFormat_to_raw_format ord (PObj n h fs)) = PHashDict L"
    and Ldef: "L = ((K_TYPE, PStr n) # (case h of None \<Rightarrow> [] | Some hv \<Rightarrow> [(K_HASH, PInt hv)])) @
                       map (\<lambda>(k, v). (k, projr (ObjFormat_to_raw_format ord v))) fs"
    by blast
  from L Obj.prems(3) have pe: "py_eq (PDict L) (projr (ObjFormat_to_raw_format ord y))"
    by (auto simp only: py_eq_dict_cases)
  have objs: "py_eq (PObj n h fs) (PObj n' h' fs')"
    if dy': "obj_doc sct (PObj n' h' fs')"
      and e: "same_elems item_eq L
                (((K_TYPE, PStr n') # (case h' of None \<Rightarrow> [] | Some hv \<Rightarrow> [(K_HASH, PInt hv)])) @
                   map (\<lambda>(k, v). (k, projr (ObjFormat_to_raw_format ord v))) fs')" for n' h' fs'
  proof (rule obj_raw_eq[where sct = sct and ord = ord])
    show "obj_doc sct (PObj n h fs)" by (rule dx)
    show "obj_doc sct (PObj n' h' fs')" by (rule dy')
    show "same_elems item_eq
            (((K_TYPE, PStr n) # (case h of None \<Rightarrow> [] | Some hv \<Rightarrow> [(K_HASH, PInt hv)])) @
                map (\<lambda>(k, v). (k, projr (ObjFormat_to_raw_format ord v))) fs)
            (((K_TYPE, PStr n') # (case h' of None \<Rightarrow> [] | Some hv \<Rightarrow> [(K_HASH, PInt hv)])) @
                map (\<lambda>(k, v). (k, projr (ObjFormat_to_raw_format ord v))) fs')"
      using e unfolding Ldef .
  next
    fix k v y
    assume "(k, v) \<in> set fs" "obj_doc sct v" "obj_doc sct y"
      "py_eq (projr (ObjFormat_to_raw_format ord v)) (projr (ObjFormat_to_raw_format ord y))"
    then show "py_eq v y" by (rule ih)
  qed
  from dy show ?case
  proof (cases rule: obj_to_raw_cases[where ord = ord])
    case (Dict kvs')
    from pe[unfolded Dict(2)] have "same_elems item_eq L
         (map (\<lambda>(k, v). (k, projr (ObjFormat_to_raw_format ord v))) kvs')"
      by (simp only: py_eq_dicts)
    then have "(K_TYPE, PStr n)
        \<in> set (map (\<lambda>(k, v). (k, projr (ObjFormat_to_raw_format ord v))) kvs')"
      unfolding Ldef append_Cons by (rule type_item(2))
    with obj_dict_differ[OF dx dy[unfolded Dict(1)]] show ?thesis by blast
  next
    case (Obj n' fs')
    from pe[unfolded Obj(2)] have "same_elems item_eq L
         (((K_TYPE, PStr n') # (case None of None \<Rightarrow> [] | Some hv \<Rightarrow> [(K_HASH, PInt hv)])) @
            map (\<lambda>(k, v). (k, projr (ObjFormat_to_raw_format ord v))) fs')"
      by (simp only: py_eq_dicts) simp
    with dy[unfolded Obj(1)] show ?thesis unfolding Obj(1) by (rule objs)
  next
    case (HashObj n' hv' fs')
    from pe[unfolded HashObj(2)] have "same_elems item_eq L
         (((K_TYPE, PStr n') # (case Some hv' of None \<Rightarrow> [] | Some hv \<Rightarrow> [(K_HASH, PInt hv)])) @
            map (\<lambda>(k, v). (k, projr (ObjFormat_to_raw_format ord v))) fs')"
      by (simp only: py_eq_dicts) simp
    with dy[unfolded HashObj(1)] show ?thesis unfolding HashObj(1) by (rule objs)
  next
    case (List ys)
    from pe[unfolded List(2)] show ?thesis by simp
  next
    case (Set ys)
    from pe[unfolded Set(2)] show ?thesis by simp
  next
    case (FrozenSet ys)
    from pe[unfolded FrozenSet(2)] show ?thesis by simp
  next
    case Scalar
    from pe[unfolded Scalar(1)] raw_eq_scalar(1)[OF Scalar(2)] show ?thesis by blast
  qed
next
  case None
  from None(2) _ None(3)[unfolded ObjFormat_to_raw_format.simps sum.sel]
  show ?case by (rule scalar_eq_raw) simp
next
  case (Bool b)
  from Bool(2) _ Bool(3)[unfolded ObjFormat_to_raw_format.simps sum.sel]
  show ?case by (rule scalar_eq_raw) simp
next
  case (Int i)
  from Int(2) _ Int(3)[unfolded ObjFormat_to_raw_format.simps sum.sel]
  show ?case by (rule scalar_eq_raw) simp
next
  case (Str s)
  from Str(2) _ Str(3)[unfolded ObjFormat_to_raw_format.simps sum.sel]
  show ?case by (rule scalar_eq_raw) simp
next
  case (Sym s)
  from Sym(2) _ Sym(3)[unfolded ObjFormat_to_raw_format.simps sum.sel]
  show ?case by (rule scalar_eq_raw) simp
next
  case (Date s)
  from Date(2) _ Date(3)[unfolded ObjFormat_to_raw_format.simps sum.sel]
  show ?case by (rule scalar_eq_raw) simp
next
  case (Path s)
  from Path(2) _ Path(3)[unfolded ObjFormat_to_raw_format.simps sum.sel]
  show ?case by (rule scalar_eq_raw) simp
qed

lemma fields_compose:
  "map (\<lambda>(k, v). case f v of Inl e \<Rightarrow> Inl e | Inr r \<Rightarrow> Inr (k, r)) (map (\<lambda>(k, v). (k, g v)) kvs)
     = map (\<lambda>(k, v). case f (g v) of Inl e \<Rightarrow> Inl e | Inr r \<Rightarrow> Inr (k, r)) kvs"
  by (induction kvs) auto

lemma raw_to_obj_fields:
  assumes "\<And>k v. (k, v) \<in> set kvs \<Longrightarrow> \<exists>r. f (g v) = Inr r"
  shows "sequence (map (\<lambda>(k, v). case f v of Inl e \<Rightarrow> Inl e | Inr r \<Rightarrow> Inr (k, r))
                       (map (\<lambda>(k, v). (k, g v)) kvs))
           = Inr (map (\<lambda>(k, v). (k, projr (f (g v)))) kvs)"
  unfolding fields_compose
  by (rule fields_shape[of kvs "\<lambda>v. f (g v)"]) (rule assms)

lemma list_all2_items_pointwise:
  "(\<And>k v. (k, v) \<in> set kvs \<Longrightarrow> py_eq (g v) v) \<Longrightarrow>
   list_all2 item_eq (map (\<lambda>(k, v). (k, g v)) kvs) kvs"
proof (induction kvs)
  case Nil
  show ?case by simp
next
  case (Cons a kvs)
  obtain k v where kv: "a = (k, v)" by (cases a)
  have 1: "py_eq (g v) v" by (rule Cons.prems[of k v]) (simp add: kv)
  have 2: "list_all2 item_eq (map (\<lambda>(k, v). (k, g v)) kvs) kvs"
  proof (rule Cons.IH)
    fix k' v' assume "(k', v') \<in> set kvs"
    then show "py_eq (g v') v'" using Cons.prems[of k' v'] by simp
  qed
  from 1 have "item_eq (k, g v) (k, v)" by (simp add: item_eq_def)
  with 2 kv show ?case by simp
qed

lemma pop_literal:
  assumes "K_TYPE \<notin> fst ` set L" "K_HASH \<notin> fst ` set L"
  shows "dict_pop (dict_pop ((K_TYPE, a) # L) K_TYPE) K_HASH = L"
    and "dict_pop (dict_pop ((K_TYPE, a) # (K_HASH, b) # L) K_TYPE) K_HASH = L"
proof -
  have 1: "dict_pop L K_TYPE = L" "dict_pop L K_HASH = L"
    using assms by (simp_all add: dict_pop_absent)
  have 2: "dict_pop ((K_TYPE, a) # L) K_TYPE = L"
    using 1 by (simp add: dict_pop_def)
  show "dict_pop (dict_pop ((K_TYPE, a) # L) K_TYPE) K_HASH = L"
    using 1 2 by simp
  have 3: "dict_pop ((K_TYPE, a) # (K_HASH, b) # L) K_TYPE = (K_HASH, b) # L"
    using 1 by (simp add: dict_pop_def)
  have 4: "dict_pop ((K_HASH, b) # L) K_HASH = L"
    using 1 by (simp add: dict_pop_def)
  show "dict_pop (dict_pop ((K_TYPE, a) # (K_HASH, b) # L) K_TYPE) K_HASH = L"
    using 3 4 by simp
qed

lemma decoded_instance:
  assumes "py_eq x' (PObj n h fs)"
  shows "hashable (PObj n h fs) \<longrightarrow> hashable x'"
proof -
  from py_eq_sym[OF assms] obtain fs' where "x' = PObj n h fs'"
    by (simp only: py_eq_obj_cases) blast
  then show ?thesis by simp
qed

lemma set_roundtrip:
  assumes so: "set_order ord"
    and el: "\<And>x. x \<in> set xs \<Longrightarrow> obj_doc sct x \<and> hashable x"
    and ih: "\<And>x. x \<in> set xs \<Longrightarrow>
        \<exists>d. RawFormat_to_obj_format sct ord (projr (ObjFormat_to_raw_format ord x)) = Inr d \<and>
            py_eq d x \<and> hashable d"
  shows "\<exists>zs. collect (map (RawFormat_to_obj_format sct ord)
                 (ord (dedup (map (\<lambda>x. projr (ObjFormat_to_raw_format ord x)) xs)))) = Inr zs \<and>
              same_elems py_eq (ord (dedup zs)) xs"
proof -
  let ?E = "\<lambda>x. projr (ObjFormat_to_raw_format ord x)"
  let ?D = "\<lambda>r. projr (RawFormat_to_obj_format sct ord r)"
  let ?rs = "ord (dedup (map ?E xs))"
  have src: "\<exists>x\<in>set xs. r = ?E x" if "r \<in> set ?rs" for r
  proof -
    from that set_ord_dedup[OF so, of "map ?E xs"] have "r \<in> set (map ?E xs)" by blast
    then show ?thesis by auto
  qed
  have dec: "\<exists>d. RawFormat_to_obj_format sct ord (?E x) = Inr d \<and> ?D (?E x) = d \<and>
                 py_eq d x \<and> hashable d" if "x \<in> set xs" for x
  proof -
    from ih[OF that] obtain d where d: "RawFormat_to_obj_format sct ord (?E x) = Inr d"
      "py_eq d x" "hashable d" by blast
    from d(1) have "?D (?E x) = d" by (simp only: sum.sel)
    with d show ?thesis by blast
  qed
  have c: "collect (map (RawFormat_to_obj_format sct ord) ?rs) = Inr (map ?D ?rs)"
  proof (rule collect_shape)
    fix r assume "r \<in> set ?rs"
    from src[OF this] obtain x where x: "x \<in> set xs" "r = ?E x" by blast
    from dec[OF x(1)] x(2)
    show "\<exists>d. RawFormat_to_obj_format sct ord r = Inr d \<and> hashable d" by blast
  qed
  have s: "same_elems py_eq (map ?D ?rs) xs"
    unfolding same_elems_def
  proof (intro conjI ballI)
    fix z assume "z \<in> set (map ?D ?rs)"
    then obtain r where r: "r \<in> set ?rs" "z = ?D r" by auto
    from src[OF r(1)] obtain x where x: "x \<in> set xs" "r = ?E x" by blast
    from dec[OF x(1)] r(2) x(2) have "py_eq z x" by blast
    with x(1) show "\<exists>x\<in>set xs. py_eq z x" by blast
  next
    fix x assume x: "x \<in> set xs"
    then have "?E x \<in> set (map ?E xs)" by simp
    from dedup_covers[OF this] obtain r where r: "r \<in> set (dedup (map ?E xs))" "py_eq r (?E x)"
      by blast
    from r(1) have rin: "r \<in> set ?rs" by (simp only: set_order_set[OF so])
    from src[OF rin] obtain x' where x': "x' \<in> set xs" "r = ?E x'" by blast
    from el[OF x'(1)] el[OF x] r(2)[unfolded x'(2)] have "py_eq x' x"
      using obj_to_raw_reflects_eq[OF so, of sct x' x] by blast
    moreover from dec[OF x'(1)] x'(2) have "py_eq (?D r) x'" by blast
    ultimately have "py_eq (?D r) x" by (rule py_eq_trans[rotated])
    moreover from rin have "?D r \<in> set (map ?D ?rs)" by simp
    ultimately show "\<exists>z\<in>set (map ?D ?rs). py_eq z x" by blast
  qed
  have tr: "\<And>zs x y z. x \<in> set zs \<Longrightarrow> py_eq x y \<Longrightarrow> py_eq y z \<Longrightarrow> py_eq x z"
    by (rule py_eq_trans)
  have "same_elems py_eq (ord (dedup (map ?D ?rs))) xs"
    by (rule same_elems_trans[OF tr dedup_same_elems[OF so] s])
  with c show ?thesis by blast
qed

lemma raw_to_obj_plain:
  assumes "sequence (map (\<lambda>(k, v). case RawFormat_to_obj_format sct ord v of
                                      Inl e \<Rightarrow> Inl e | Inr r \<Rightarrow> Inr (k, r)) kvs) = Inr res"
    and "map_of res K_TYPE = None \<or>
         (\<exists>n. map_of res K_TYPE = Some (PStr n) \<and> map_of sct n = None)"
  shows "RawFormat_to_obj_format sct ord (PDict kvs) = Inr (PDict res)"
  using assms by auto

lemma raw_to_obj_instance:
  assumes "sequence (map (\<lambda>(k, v). case RawFormat_to_obj_format sct ord v of
                                      Inl e \<Rightarrow> Inl e | Inr r \<Rightarrow> Inr (k, r)) kvs) = Inr res"
    and "map_of res K_TYPE = Some (PStr n)" and "map_of sct n = Some from_dict"
  shows "RawFormat_to_obj_format sct ord (PDict kvs)
           = from_dict (dict_pop (dict_pop res K_TYPE) K_HASH)"
    and "RawFormat_to_obj_format sct ord (PHashDict kvs)
           = from_dict (dict_pop (dict_pop res K_TYPE) K_HASH)"
  using assms by auto

lemma raw_to_obj_literal:
  assumes "sequence (map (\<lambda>(k, v). case RawFormat_to_obj_format sct ord v of
                                      Inl e \<Rightarrow> Inl e | Inr r \<Rightarrow> Inr (k, r)) L) = Inr items"
  shows "sequence (map (\<lambda>(k, v). case RawFormat_to_obj_format sct ord v of
                                     Inl e \<Rightarrow> Inl e | Inr r \<Rightarrow> Inr (k, r)) ((K_TYPE, PStr n) # L))
           = Inr ((K_TYPE, PStr n) # items)"
    and "sequence (map (\<lambda>(k, v). case RawFormat_to_obj_format sct ord v of
                                     Inl e \<Rightarrow> Inl e | Inr r \<Rightarrow> Inr (k, r))
                       ((K_TYPE, PStr n) # (K_HASH, PInt hv) # L))
           = Inr ((K_TYPE, PStr n) # (K_HASH, PInt hv) # items)"
  using assms by auto

lemma instance_roundtrip:
  assumes dx: "obj_doc sct (PObj n h fs)"
    and ih: "\<And>k v. (k, v) \<in> set fs \<Longrightarrow>
        \<exists>d. RawFormat_to_obj_format sct ord (projr (ObjFormat_to_raw_format ord v)) = Inr d \<and>
            py_eq d v"
  shows "\<exists>d. RawFormat_to_obj_format sct ord (projr (ObjFormat_to_raw_format ord (PObj n h fs)))
                = Inr d \<and> py_eq d (PObj n h fs)"
proof -
  let ?E = "\<lambda>v. projr (ObjFormat_to_raw_format ord v)"
  let ?T = "\<lambda>v. projr (RawFormat_to_obj_format sct ord (?E v))"
  let ?items = "map (\<lambda>(k, v). (k, ?T v)) fs"
  have seq: "sequence (map (\<lambda>(k, v). case RawFormat_to_obj_format sct ord v of
                                        Inl e \<Rightarrow> Inl e | Inr r \<Rightarrow> Inr (k, r))
                          (map (\<lambda>(k, v). (k, ?E v)) fs)) = Inr ?items"
  proof (rule raw_to_obj_fields)
    fix k v assume "(k, v) \<in> set fs"
    from ih[OF this] show "\<exists>r. RawFormat_to_obj_format sct ord (?E v) = Inr r" by blast
  qed
  have keys: "K_TYPE \<notin> fst ` set ?items" "K_HASH \<notin> fst ` set ?items"
    using dx by (simp_all only: keys_map_values) simp_all
  from dx obtain from_dict where fd: "map_of sct n = Some from_dict" "decodes from_dict n h fs"
    by (auto split: option.splits)
  have "list_all2 item_eq ?items fs"
  proof (rule list_all2_items_pointwise)
    fix k v assume "(k, v) \<in> set fs"
    from ih[OF this] obtain d where "RawFormat_to_obj_format sct ord (?E v) = Inr d" "py_eq d v"
      by blast
    then show "py_eq (?T v) v" by (simp only: sum.sel)
  qed
  with fd(2) obtain d where d: "from_dict ?items = Inr d" "py_eq d (PObj n h fs)"
    unfolding decodes_def by blast
  show ?thesis
  proof (cases h)
    case None
    have ex: "?E (PObj n h fs) = PDict ((K_TYPE, PStr n) # map (\<lambda>(k, v). (k, ?E v)) fs)"
      using obj_to_raw_obj(1)[OF dx, of ord] None by (simp only: sum.sel)
    have "RawFormat_to_obj_format sct ord (PDict ((K_TYPE, PStr n) # map (\<lambda>(k, v). (k, ?E v)) fs))
            = from_dict (dict_pop (dict_pop ((K_TYPE, PStr n) # ?items) K_TYPE) K_HASH)"
      by (rule raw_to_obj_instance(1)[OF raw_to_obj_literal(1)[OF seq] _ fd(1)]) simp
    then have "RawFormat_to_obj_format sct ord (?E (PObj n h fs)) = Inr d"
      unfolding ex by (simp only: pop_literal(1)[OF keys] d(1))
    with d(2) show ?thesis by blast
  next
    case (Some hv)
    have ex: "?E (PObj n h fs)
                = PHashDict ((K_TYPE, PStr n) # (K_HASH, PInt hv) # map (\<lambda>(k, v). (k, ?E v)) fs)"
      using obj_to_raw_obj(2)[OF dx, of ord hv] Some by (simp only: sum.sel)
    have "RawFormat_to_obj_format sct ord
            (PHashDict ((K_TYPE, PStr n) # (K_HASH, PInt hv) # map (\<lambda>(k, v). (k, ?E v)) fs))
            = from_dict (dict_pop (dict_pop ((K_TYPE, PStr n) # (K_HASH, PInt hv) # ?items) K_TYPE)
                K_HASH)"
      by (rule raw_to_obj_instance(2)[OF raw_to_obj_literal(2)[OF seq] _ fd(1)]) simp
    then have "RawFormat_to_obj_format sct ord (?E (PObj n h fs)) = Inr d"
      unfolding ex by (simp only: pop_literal(2)[OF keys] d(1))
    with d(2) show ?thesis by blast
  qed
qed

lemma dict_roundtrip:
  assumes dx: "obj_doc sct (PDict kvs)"
    and ih: "\<And>k v. (k, v) \<in> set kvs \<Longrightarrow>
        \<exists>d. RawFormat_to_obj_format sct ord (projr (ObjFormat_to_raw_format ord v)) = Inr d \<and>
            py_eq d v"
  shows "\<exists>d. RawFormat_to_obj_format sct ord (projr (ObjFormat_to_raw_format ord (PDict kvs)))
                = Inr d \<and> py_eq d (PDict kvs)"
proof -
  let ?E = "\<lambda>v. projr (ObjFormat_to_raw_format ord v)"
  let ?T = "\<lambda>v. projr (RawFormat_to_obj_format sct ord (?E v))"
  let ?items = "map (\<lambda>(k, v). (k, ?T v)) kvs"
  have ex: "?E (PDict kvs) = PDict (map (\<lambda>(k, v). (k, ?E v)) kvs)"
    using obj_to_raw_dict[OF dx, of ord] by (simp only: sum.sel)
  have seq: "sequence (map (\<lambda>(k, v). case RawFormat_to_obj_format sct ord v of
                                        Inl e \<Rightarrow> Inl e | Inr r \<Rightarrow> Inr (k, r))
                          (map (\<lambda>(k, v). (k, ?E v)) kvs)) = Inr ?items"
  proof (rule raw_to_obj_fields)
    fix k v assume "(k, v) \<in> set kvs"
    from ih[OF this] show "\<exists>r. RawFormat_to_obj_format sct ord (?E v) = Inr r" by blast
  qed
  have mo: "map_of ?items K_TYPE = map_option ?T (map_of kvs K_TYPE)"
    by (simp add: map_of_map)
  have tag: "map_of ?items K_TYPE = None \<or>
         (\<exists>n. map_of ?items K_TYPE = Some (PStr n) \<and> map_of sct n = None)"
  proof (cases "map_of kvs K_TYPE")
    case None
    with mo show ?thesis by simp
  next
    case (Some t)
    with dx obtain n where n: "t = PStr n" "map_of sct n = None"
      by (cases t) simp_all
    have "?T (PStr n) = PStr n" by simp
    with mo Some n show ?thesis by simp
  qed
  have r: "RawFormat_to_obj_format sct ord (?E (PDict kvs)) = Inr (PDict ?items)"
    unfolding ex using seq tag by (rule raw_to_obj_plain)
  have "same_elems item_eq ?items kvs"
  proof (rule same_items_pointwise)
    fix k v assume "(k, v) \<in> set kvs"
    from ih[OF this] obtain d where "RawFormat_to_obj_format sct ord (?E v) = Inr d" "py_eq d v"
      by blast
    then show "py_eq (?T v) v" by (simp only: sum.sel)
  qed
  then have "py_eq (PDict ?items) (PDict kvs)" by (simp only: py_eq_dicts)
  with r show ?thesis by blast
qed

lemma obj_roundtrip:
  assumes so: "set_order ord"
  shows "obj_doc sct x \<Longrightarrow>
     \<exists>d. RawFormat_to_obj_format sct ord (projr (ObjFormat_to_raw_format ord x)) = Inr d \<and>
         py_eq d x \<and> (hashable x \<longrightarrow> hashable d)"
proof (induction x rule: pyval_induct2)
  case (Dict kvs)
  have "\<exists>d. RawFormat_to_obj_format sct ord (projr (ObjFormat_to_raw_format ord (PDict kvs)))
                = Inr d \<and> py_eq d (PDict kvs)"
  proof (rule dict_roundtrip[OF Dict.prems])
    fix k v assume kv: "(k, v) \<in> set kvs"
    from Dict.IH[OF kv obj_doc_fields(2)[OF Dict.prems kv]]
    show "\<exists>d. RawFormat_to_obj_format sct ord (projr (ObjFormat_to_raw_format ord v)) = Inr d \<and>
              py_eq d v" by blast
  qed
  then show ?case by simp
next
  case (HashDict kvs)
  then show ?case by simp
next
  case (List xs)
  let ?E = "\<lambda>x. projr (ObjFormat_to_raw_format ord x)"
  have ex: "?E (PList xs) = PList (map ?E xs)"
    using obj_to_raw_list[OF List.prems, of ord] by (simp only: sum.sel)
  have "\<exists>ys. sequence (map (\<lambda>x. RawFormat_to_obj_format sct ord (?E x)) xs) = Inr ys \<and>
             list_all2 py_eq ys xs"
  proof (rule sequence_map_results)
    fix x assume x: "x \<in> set xs"
    from List.IH[OF x obj_doc_elems(1)[OF List.prems x]]
    show "\<exists>w. RawFormat_to_obj_format sct ord (?E x) = Inr w \<and> py_eq w x" by blast
  qed
  then obtain ys where ys: "sequence (map (\<lambda>x. RawFormat_to_obj_format sct ord (?E x)) xs) = Inr ys"
    "list_all2 py_eq ys xs" by blast
  have m: "map (RawFormat_to_obj_format sct ord) (map ?E xs)
             = map (\<lambda>x. RawFormat_to_obj_format sct ord (?E x)) xs"
    by simp
  have "RawFormat_to_obj_format sct ord (PList (map ?E xs)) = Inr (PList ys)"
    using ys(1) by (simp only: RawFormat_to_obj_format.simps m sum.case)
  with ys(2) show ?case unfolding ex by simp
next
  case (Set xs)
  let ?E = "\<lambda>x. projr (ObjFormat_to_raw_format ord x)"
  have ex: "?E (PSet xs) = PSet (ord (dedup (map ?E xs)))"
    using obj_to_raw_set[OF Set.prems, of ord] by (simp only: sum.sel)
  have "\<exists>zs. collect (map (RawFormat_to_obj_format sct ord) (ord (dedup (map ?E xs)))) = Inr zs \<and>
              same_elems py_eq (ord (dedup zs)) xs"
  proof (rule set_roundtrip[OF so])
    fix x assume x: "x \<in> set xs"
    from obj_doc_elems(2)[OF Set.prems x] show e: "obj_doc sct x \<and> hashable x" .
    with Set.IH[OF x]
    show "\<exists>d. RawFormat_to_obj_format sct ord (?E x) = Inr d \<and> py_eq d x \<and> hashable d" by blast
  qed
  then obtain zs where zs: "collect (map (RawFormat_to_obj_format sct ord) (ord (dedup (map ?E xs))))
      = Inr zs" "same_elems py_eq (ord (dedup zs)) xs" by blast
  have "RawFormat_to_obj_format sct ord (PSet (ord (dedup (map ?E xs)))) = Inr (PSet (ord (dedup zs)))"
    using zs(1) by (simp only: RawFormat_to_obj_format.simps py_set_map_def sum.case)
  moreover from zs(2) have "py_eq (PSet (ord (dedup zs))) (PSet xs)" by (simp only: py_eq_sets)
  ultimately show ?case unfolding ex by simp
next
  case (FrozenSet xs)
  let ?E = "\<lambda>x. projr (ObjFormat_to_raw_format ord x)"
  have ex: "?E (PFrozenSet xs) = PFrozenSet (ord (dedup (map ?E xs)))"
    using obj_to_raw_frozenset[OF FrozenSet.prems, of ord] by (simp only: sum.sel)
  have "\<exists>zs. collect (map (RawFormat_to_obj_format sct ord) (ord (dedup (map ?E xs)))) = Inr zs \<and>
              same_elems py_eq (ord (dedup zs)) xs"
  proof (rule set_roundtrip[OF so])
    fix x assume x: "x \<in> set xs"
    from obj_doc_elems(3)[OF FrozenSet.prems x] show e: "obj_doc sct x \<and> hashable x" .
    with FrozenSet.IH[OF x]
    show "\<exists>d. RawFormat_to_obj_format sct ord (?E x) = Inr d \<and> py_eq d x \<and> hashable d" by blast
  qed
  then obtain zs where zs: "collect (map (RawFormat_to_obj_format sct ord) (ord (dedup (map ?E xs))))
      = Inr zs" "same_elems py_eq (ord (dedup zs)) xs" by blast
  have "RawFormat_to_obj_format sct ord (PFrozenSet (ord (dedup (map ?E xs))))
          = Inr (PFrozenSet (ord (dedup zs)))"
    using zs(1) by (simp only: RawFormat_to_obj_format.simps py_frozenset_map_def sum.case)
  moreover from zs(2) have "py_eq (PFrozenSet (ord (dedup zs))) (PFrozenSet xs)"
    by (simp only: py_eq_sets)
  ultimately show ?case unfolding ex by simp
next
  case (Obj n h fs)
  have "\<exists>d. RawFormat_to_obj_format sct ord (projr (ObjFormat_to_raw_format ord (PObj n h fs)))
                = Inr d \<and> py_eq d (PObj n h fs)"
  proof (rule instance_roundtrip[OF Obj.prems])
    fix k v assume kv: "(k, v) \<in> set fs"
    from Obj.IH[OF kv obj_doc_fields(1)[OF Obj.prems kv]]
    show "\<exists>d. RawFormat_to_obj_format sct ord (projr (ObjFormat_to_raw_format ord v)) = Inr d \<and>
              py_eq d v" by blast
  qed
  then obtain d where d: "RawFormat_to_obj_format sct ord
      (projr (ObjFormat_to_raw_format ord (PObj n h fs))) = Inr d" "py_eq d (PObj n h fs)" by blast
  from decoded_instance[OF d(2)] d show ?case by blast
qed simp_all


subsection \<open>Object to Raw against its description\<close>

lemma collect_map_Inr:
  assumes "\<And>x. x \<in> set xs \<Longrightarrow> f x = Inr (g x) \<and> hashable (g x)"
  shows "collect (map f xs) = Inr (map g xs)"
  using assms
proof (induction xs)
  case Nil
  show ?case by simp
next
  case (Cons a xs)
  from Cons.prems[of a] have a: "f a = Inr (g a)" "hashable (g a)" by simp_all
  have "collect (map f xs) = Inr (map g xs)"
    by (rule Cons.IH) (simp add: Cons.prems)
  with a show ?case by simp
qed

lemma fields_map_Inr:
  assumes "\<And>k v. (k, v) \<in> set kvs \<Longrightarrow> f v = Inr (g v)"
  shows "sequence (map (\<lambda>(k, v). case f v of Inl e \<Rightarrow> Inl e | Inr r \<Rightarrow> Inr (k, r)) kvs)
           = Inr (map (\<lambda>(k, v). (k, g v)) kvs)"
proof (rule sequence_map_Inr)
  fix x assume x: "x \<in> set kvs"
  obtain k v where kv: "x = (k, v)" by (cases x)
  from assms[of k v] x kv have "f v = Inr (g v)" by simp
  then show "(case x of (k, v) \<Rightarrow> (case f v of Inl e \<Rightarrow> Inl e | Inr r \<Rightarrow> Inr (k, r)))
           = Inr (case x of (k, v) \<Rightarrow> (k, g v))"
    using kv by simp
qed

lemma to_raw_spec_hashable:
  "object_doc x \<Longrightarrow> hashable x \<Longrightarrow> hashable (to_raw_spec ord x)"
  by (cases x) auto

lemma obj_to_raw_refines:
  "object_doc d \<Longrightarrow> ObjFormat_to_raw_format ord d = Inr (to_raw_spec ord d)"
proof (induction d rule: pyval_induct2)
  case (Dict kvs)
  have "sequence (map (\<lambda>(k, v). case ObjFormat_to_raw_format ord v of
                                   Inl e \<Rightarrow> Inl e | Inr r \<Rightarrow> Inr (k, r)) kvs)
          = Inr (map (\<lambda>(k, v). (k, to_raw_spec ord v)) kvs)"
  proof (rule fields_map_Inr)
    fix k v assume kv: "(k, v) \<in> set kvs"
    with Dict.prems have "object_doc v" by (auto simp: list_all_iff)
    with kv show "ObjFormat_to_raw_format ord v = Inr (to_raw_spec ord v)" by (rule Dict.IH)
  qed
  then show ?case by simp
next
  case (HashDict kvs)
  then show ?case by simp
next
  case (List xs)
  have "sequence (map (ObjFormat_to_raw_format ord) xs) = Inr (map (to_raw_spec ord) xs)"
  proof (rule sequence_map_Inr)
    fix x assume x: "x \<in> set xs"
    with List.prems have "object_doc x" by (simp add: list_all_iff)
    with x show "ObjFormat_to_raw_format ord x = Inr (to_raw_spec ord x)" by (rule List.IH)
  qed
  then show ?case by simp
next
  case (Set xs)
  have "collect (map (ObjFormat_to_raw_format ord) xs) = Inr (map (to_raw_spec ord) xs)"
  proof (rule collect_map_Inr)
    fix x assume x: "x \<in> set xs"
    with Set.prems have d: "object_doc x" "hashable x" by (simp_all add: list_all_iff)
    from Set.IH[OF x d(1)] to_raw_spec_hashable[OF d, of ord]
    show "ObjFormat_to_raw_format ord x = Inr (to_raw_spec ord x) \<and> hashable (to_raw_spec ord x)"
      by blast
  qed
  then show ?case by (simp add: py_set_map_def)
next
  case (FrozenSet xs)
  have "collect (map (ObjFormat_to_raw_format ord) xs) = Inr (map (to_raw_spec ord) xs)"
  proof (rule collect_map_Inr)
    fix x assume x: "x \<in> set xs"
    with FrozenSet.prems have d: "object_doc x" "hashable x" by (simp_all add: list_all_iff)
    from FrozenSet.IH[OF x d(1)] to_raw_spec_hashable[OF d, of ord]
    show "ObjFormat_to_raw_format ord x = Inr (to_raw_spec ord x) \<and> hashable (to_raw_spec ord x)"
      by blast
  qed
  then show ?case by (simp add: py_frozenset_map_def)
next
  case (Obj n h fs)
  have s: "sequence (map (\<lambda>(k, v). case ObjFormat_to_raw_format ord v of
                                   Inl e \<Rightarrow> Inl e | Inr r \<Rightarrow> Inr (k, r)) fs)
          = Inr (map (\<lambda>(k, v). (k, to_raw_spec ord v)) fs)"
  proof (rule fields_map_Inr)
    fix k v assume kv: "(k, v) \<in> set fs"
    with Obj.prems have "object_doc v" by (auto simp: list_all_iff)
    with kv show "ObjFormat_to_raw_format ord v = Inr (to_raw_spec ord v)" by (rule Obj.IH)
  qed
  have d: "distinct (map fst fs)" "K_TYPE \<notin> fst ` set fs" "K_HASH \<notin> fst ` set fs"
    using Obj.prems by simp_all
  show ?case
  proof (cases h)
    case None
    with s literal_keys(1)[OF d, of "PStr n" "to_raw_spec ord"] show ?thesis
      by (simp only: obj_to_raw_unhashable) simp
  next
    case (Some hv)
    with s literal_keys(2)[OF d, of "PStr n" "PInt hv" "to_raw_spec ord"] show ?thesis
      by (simp only: obj_to_raw_hashable) simp
  qed
qed simp_all

subsection \<open>Symbol keys\<close>

lemma map_key_symbol: "map_key (KSym label) = KStr (bracketed label)"
  by (simp add: bracketed_def)

lemma stored_items_distinct:
  assumes "distinct (map (\<lambda>(k, v). map_key k) kvs)"
  shows "dict_of_items (map (\<lambda>(k, v). (map_key k, WorkingFormat_to_storage_format v)) kvs)
           = map (\<lambda>(k, v). (map_key k, WorkingFormat_to_storage_format v)) kvs"
proof (rule dict_of_items_distinct)
  have "map fst (map (\<lambda>(k, v). (map_key k, WorkingFormat_to_storage_format v)) kvs)
          = map (\<lambda>(k, v). map_key k) kvs"
    by (induction kvs) auto
  with assms show "distinct (map fst (map (\<lambda>(k, v). (map_key k, WorkingFormat_to_storage_format v)) kvs))"
    by (simp only:)
qed

lemma items_bracketed:
  assumes "\<And>k v. (k, v) \<in> set kvs \<Longrightarrow> symbols_bracketed v (WorkingFormat_to_storage_format v)"
  shows "list_all2 (\<lambda>(k, v) (k', v'). bracketed_key k k' \<and> symbols_bracketed v v') kvs
           (map (\<lambda>(k, v). (map_key k, WorkingFormat_to_storage_format v)) kvs)"
  using assms
proof (induction kvs)
  case Nil
  show ?case by simp
next
  case (Cons a kvs)
  obtain k v where kv: "a = (k, v)" by (cases a)
  have 1: "symbols_bracketed v (WorkingFormat_to_storage_format v)"
    by (rule Cons.prems[of k v]) (simp add: kv)
  have 2: "bracketed_key k (map_key k)"
    by (cases k) (simp_all add: bracketed_def)
  have 3: "list_all2 (\<lambda>(k, v) (k', v'). bracketed_key k k' \<and> symbols_bracketed v v') kvs
           (map (\<lambda>(k, v). (map_key k, WorkingFormat_to_storage_format v)) kvs)"
  proof (rule Cons.IH)
    fix k' v' assume "(k', v') \<in> set kvs"
    then show "symbols_bracketed v' (WorkingFormat_to_storage_format v')"
      using Cons.prems[of k' v'] by simp
  qed
  from 1 2 3 kv show ?case by simp
qed

lemma elems_bracketed:
  assumes "\<And>x. x \<in> set xs \<Longrightarrow> symbols_bracketed x (WorkingFormat_to_storage_format x)"
  shows "list_all2 symbols_bracketed xs (map WorkingFormat_to_storage_format xs)"
  using assms by (induction xs) simp_all

lemma store_brackets_symbols:
  "stored_keys_distinct w \<Longrightarrow> symbols_bracketed w (WorkingFormat_to_storage_format w)"
proof (induction w rule: pyval_induct2)
  case (Dict kvs)
  from Dict.prems have d: "distinct (map (\<lambda>(k, v). map_key k) kvs)" by simp
  have "list_all2 (\<lambda>(k, v) (k', v'). bracketed_key k k' \<and> symbols_bracketed v v') kvs
           (map (\<lambda>(k, v). (map_key k, WorkingFormat_to_storage_format v)) kvs)"
  proof (rule items_bracketed)
    fix k v assume kv: "(k, v) \<in> set kvs"
    with Dict.prems have "stored_keys_distinct v" by (auto simp: list_all_iff)
    with kv show "symbols_bracketed v (WorkingFormat_to_storage_format v)" by (rule Dict.IH)
  qed
  then show ?case by (simp add: stored_items_distinct[OF d])
next
  case (HashDict kvs)
  from HashDict.prems have d: "distinct (map (\<lambda>(k, v). map_key k) kvs)" by simp
  have "list_all2 (\<lambda>(k, v) (k', v'). bracketed_key k k' \<and> symbols_bracketed v v') kvs
           (map (\<lambda>(k, v). (map_key k, WorkingFormat_to_storage_format v)) kvs)"
  proof (rule items_bracketed)
    fix k v assume kv: "(k, v) \<in> set kvs"
    with HashDict.prems have "stored_keys_distinct v" by (auto simp: list_all_iff)
    with kv show "symbols_bracketed v (WorkingFormat_to_storage_format v)" by (rule HashDict.IH)
  qed
  then show ?case by (simp add: stored_items_distinct[OF d])
next
  case (List xs)
  have "list_all2 symbols_bracketed xs (map WorkingFormat_to_storage_format xs)"
  proof (rule elems_bracketed)
    fix x assume x: "x \<in> set xs"
    with List.prems have "stored_keys_distinct x" by (simp add: list_all_iff)
    with x show "symbols_bracketed x (WorkingFormat_to_storage_format x)" by (rule List.IH)
  qed
  then show ?case by simp
next
  case (Set xs)
  have "list_all2 symbols_bracketed xs (map WorkingFormat_to_storage_format xs)"
  proof (rule elems_bracketed)
    fix x assume x: "x \<in> set xs"
    with Set.prems have "stored_keys_distinct x" by (simp add: list_all_iff)
    with x show "symbols_bracketed x (WorkingFormat_to_storage_format x)" by (rule Set.IH)
  qed
  then show ?case by simp
next
  case (FrozenSet xs)
  have "list_all2 symbols_bracketed xs (map WorkingFormat_to_storage_format xs)"
  proof (rule elems_bracketed)
    fix x assume x: "x \<in> set xs"
    with FrozenSet.prems have "stored_keys_distinct x" by (simp add: list_all_iff)
    with x show "symbols_bracketed x (WorkingFormat_to_storage_format x)" by (rule FrozenSet.IH)
  qed
  then show ?case by simp
qed simp_all

lemma bracketed_plain:
  "DOT \<notin> set label \<Longrightarrow> DOT \<notin> set (bracketed label)"
  "FULLWIDTH_DOT \<notin> set label \<Longrightarrow> FULLWIDTH_DOT \<notin> set (bracketed label)"
  by (simp_all add: bracketed_def ustr_def DOT_def FULLWIDTH_DOT_def)

lemma key_as_string_encodable: "symbol_key k \<Longrightarrow> encodable_key (key_as_string k)"
  by (cases k) (simp_all add: bracketed_plain)

lemma map_key_as_string: "symbol_key k \<Longrightarrow> map_key (key_as_string k) = map_key k"
  by (cases k) (simp_all add: bracketed_plain map_key_symbol del: map_key.simps(1))

lemma key_as_string_type: "key_as_string k = K_TYPE \<Longrightarrow> k = K_TYPE"
  by (cases k) (simp_all add: bracketed_def K_TYPE_def ustr_def)

lemma symbols_as_strings_PStr: "symbols_as_strings v = PStr s \<longleftrightarrow> v = PStr s"
  by (cases v) simp_all

lemma set_elem_no_symbols: "set_elem x \<Longrightarrow> symbols_as_strings x = x"
proof (induction x rule: pyval_induct2)
  case (FrozenSet xs)
  have "map symbols_as_strings xs = xs"
  proof (rule map_idI)
    fix x assume x: "x \<in> set xs"
    with FrozenSet.prems have "set_elem x" by (simp add: list_all_iff)
    with x show "symbols_as_strings x = x" by (rule FrozenSet.IH)
  qed
  then show ?case by simp
qed simp_all

lemma set_elems_no_symbols: "list_all set_elem xs \<Longrightarrow> map symbols_as_strings xs = xs"
  by (rule map_idI) (simp add: list_all_iff set_elem_no_symbols)

lemma as_strings_tagged:
  "set_tagged (map (\<lambda>(k, v). (key_as_string k, symbols_as_strings v)) kvs) = set_tagged kvs"
proof -
  have "map_of (map (\<lambda>(k, v). (key_as_string k, symbols_as_strings v)) kvs) (key_as_string K_TYPE)
          = map_option symbols_as_strings (map_of kvs K_TYPE)"
  proof (rule map_of_map_inj)
    fix k assume "k \<in> fst ` set kvs" "key_as_string k = key_as_string K_TYPE"
    then have "key_as_string k = K_TYPE" by (simp add: K_TYPE_def)
    then show "k = K_TYPE" by (rule key_as_string_type)
  qed
  moreover have "key_as_string K_TYPE = K_TYPE" by (simp add: K_TYPE_def)
  ultimately have m: "map_of (map (\<lambda>(k, v). (key_as_string k, symbols_as_strings v)) kvs) K_TYPE
          = map_option symbols_as_strings (map_of kvs K_TYPE)" by simp
  show ?thesis
    unfolding set_tagged_def m
    by (cases "map_of kvs K_TYPE") (simp_all add: symbols_as_strings_PStr)
qed

lemma as_strings_items:
  assumes d: "distinct (map (\<lambda>(k, v). key_as_string k) kvs)"
    and k: "list_all symbol_key (map fst kvs)"
    and t: "\<not> set_tagged kvs"
    and v: "\<And>k v. (k, v) \<in> set kvs \<Longrightarrow> working_doc (symbols_as_strings v)"
  shows "distinct (map fst (map (\<lambda>(k, v). (key_as_string k, symbols_as_strings v)) kvs))"
    and "list_all encodable_key (map fst (map (\<lambda>(k, v). (key_as_string k, symbols_as_strings v)) kvs))"
    and "\<not> set_tagged (map (\<lambda>(k, v). (key_as_string k, symbols_as_strings v)) kvs)"
    and "list_all (\<lambda>(k, v). working_doc v)
           (map (\<lambda>(k, v). (key_as_string k, symbols_as_strings v)) kvs)"
proof -
  have m: "map fst (map (\<lambda>(k, v). (key_as_string k, symbols_as_strings v)) kvs)
             = map (\<lambda>(k, v). key_as_string k) kvs"
    by (induction kvs) auto
  show "distinct (map fst (map (\<lambda>(k, v). (key_as_string k, symbols_as_strings v)) kvs))"
    unfolding m by (rule d)
  show "list_all encodable_key (map fst (map (\<lambda>(k, v). (key_as_string k, symbols_as_strings v)) kvs))"
    unfolding m using k by (auto simp: list_all_iff key_as_string_encodable)
  show "\<not> set_tagged (map (\<lambda>(k, v). (key_as_string k, symbols_as_strings v)) kvs)"
    using t by (simp only: as_strings_tagged simp_thms)
  show "list_all (\<lambda>(k, v). working_doc v)
           (map (\<lambda>(k, v). (key_as_string k, symbols_as_strings v)) kvs)"
    using v by (auto simp: list_all_iff)
qed

lemma as_strings_working_doc: "symbol_doc w \<Longrightarrow> working_doc (symbols_as_strings w)"
proof (induction w rule: pyval_induct2)
  case (Dict kvs)
  have v: "\<And>k v. (k, v) \<in> set kvs \<Longrightarrow> working_doc (symbols_as_strings v)"
  proof -
    fix k v assume kv: "(k, v) \<in> set kvs"
    with Dict.prems have "symbol_doc v" by (auto simp: list_all_iff)
    with kv show "working_doc (symbols_as_strings v)" by (rule Dict.IH)
  qed
  from Dict.prems have "distinct (map (\<lambda>(k, v). key_as_string k) kvs)"
    "list_all symbol_key (map fst kvs)" "\<not> set_tagged kvs" by simp_all
  from as_strings_items[OF this v] show ?case
    by (simp only: symbols_as_strings.simps working_doc.simps simp_thms)
next
  case (HashDict kvs)
  have v: "\<And>k v. (k, v) \<in> set kvs \<Longrightarrow> working_doc (symbols_as_strings v)"
  proof -
    fix k v assume kv: "(k, v) \<in> set kvs"
    with HashDict.prems have "symbol_doc v" by (auto simp: list_all_iff)
    with kv show "working_doc (symbols_as_strings v)" by (rule HashDict.IH)
  qed
  from HashDict.prems have "distinct (map (\<lambda>(k, v). key_as_string k) kvs)"
    "list_all symbol_key (map fst kvs)" "\<not> set_tagged kvs" by simp_all
  from as_strings_items[OF this v] show ?case
    by (simp only: symbols_as_strings.simps working_doc.simps simp_thms)
next
  case (List xs)
  then show ?case by (simp add: list_all_iff)
next
  case (Set xs)
  then show ?case by (simp add: set_elems_no_symbols)
next
  case (FrozenSet xs)
  then show ?case by (simp add: set_elems_no_symbols)
qed simp_all

lemma store_as_strings:
  "symbol_doc w \<Longrightarrow>
   WorkingFormat_to_storage_format (symbols_as_strings w) = WorkingFormat_to_storage_format w"
proof (induction w rule: pyval_induct2)
  case (Dict kvs)
  have "map (\<lambda>(k, v). (map_key k, WorkingFormat_to_storage_format v))
            (map (\<lambda>(k, v). (key_as_string k, symbols_as_strings v)) kvs)
          = map (\<lambda>(k, v). (map_key k, WorkingFormat_to_storage_format v)) kvs"
    unfolding map_map
  proof (rule map_cong[OF refl])
    fix x assume x: "x \<in> set kvs"
    obtain k v where kv: "x = (k, v)" by (cases x)
    from Dict.prems x kv have "symbol_key k" "symbol_doc v" by (auto simp: list_all_iff)
    with Dict.IH[of k v] x kv
    show "((\<lambda>(k, v). (map_key k, WorkingFormat_to_storage_format v)) \<circ>
           (\<lambda>(k, v). (key_as_string k, symbols_as_strings v))) x
          = (case x of (k, v) \<Rightarrow> (map_key k, WorkingFormat_to_storage_format v))"
      by (simp add: map_key_as_string del: map_key.simps)
  qed
  then show ?case by (simp only: symbols_as_strings.simps WorkingFormat_to_storage_format.simps)
next
  case (HashDict kvs)
  have "map (\<lambda>(k, v). (map_key k, WorkingFormat_to_storage_format v))
            (map (\<lambda>(k, v). (key_as_string k, symbols_as_strings v)) kvs)
          = map (\<lambda>(k, v). (map_key k, WorkingFormat_to_storage_format v)) kvs"
    unfolding map_map
  proof (rule map_cong[OF refl])
    fix x assume x: "x \<in> set kvs"
    obtain k v where kv: "x = (k, v)" by (cases x)
    from HashDict.prems x kv have "symbol_key k" "symbol_doc v" by (auto simp: list_all_iff)
    with HashDict.IH[of k v] x kv
    show "((\<lambda>(k, v). (map_key k, WorkingFormat_to_storage_format v)) \<circ>
           (\<lambda>(k, v). (key_as_string k, symbols_as_strings v))) x
          = (case x of (k, v) \<Rightarrow> (map_key k, WorkingFormat_to_storage_format v))"
      by (simp add: map_key_as_string del: map_key.simps)
  qed
  then show ?case by (simp only: symbols_as_strings.simps WorkingFormat_to_storage_format.simps)
next
  case (List xs)
  have "map (WorkingFormat_to_storage_format \<circ> symbols_as_strings) xs
          = map WorkingFormat_to_storage_format xs"
  proof (rule map_cong[OF refl])
    fix x assume x: "x \<in> set xs"
    with List.prems have "symbol_doc x" by (simp add: list_all_iff)
    with List.IH[OF x]
    show "(WorkingFormat_to_storage_format \<circ> symbols_as_strings) x = WorkingFormat_to_storage_format x"
      by simp
  qed
  then show ?case by simp
next
  case (Set xs)
  then show ?case by (simp add: set_elems_no_symbols)
next
  case (FrozenSet xs)
  then show ?case by (simp add: set_elems_no_symbols)
qed simp_all

lemma load_store_symbols:
  assumes "set_order ord" and "symbol_doc w"
  shows "\<exists>w'. StorageFormat_to_working_format ord (WorkingFormat_to_storage_format w) = Inr w' \<and>
              py_eq w' (symbols_as_strings w)"
proof -
  from load_store_roundtrip[OF assms(1) as_strings_working_doc[OF assms(2)]]
  obtain w' where "StorageFormat_to_working_format ord
      (WorkingFormat_to_storage_format (symbols_as_strings w)) = Inr w'"
    "py_eq w' (symbols_as_strings w)" by blast
  then show ?thesis
    by (simp only: store_as_strings[OF assms(2)]) blast
qed

section \<open>The claims\<close>

subsection \<open>C3: an encoded set without its value\<close>

text \<open>
  C3, as stated, fails: a document can hold an encoded set without \<^verbatim>\<open>"_value"\<close> where
  the conversion never looks, under another field of an encoded set, and is then
  converted without any error.
\<close>

theorem C3_counterexample:
  "missing_value (PDict [(K_TYPE, PStr (ustr ''set''))]) \<and>
   StorageFormat_to_working_format id
     (PDict [(K_TYPE, PStr (ustr ''set'')), (K_VALUE, PList []),
             (KStr (ustr ''x''), PDict [(K_TYPE, PStr (ustr ''set''))])]) = Inr (PSet [])"
  by (simp add: K_TYPE_def K_VALUE_def ustr_def py_set_def dedup_def set_tagged_def)

text \<open>
  C3, amended: when a mapping tagged \<^verbatim>\<open>"set"\<close> or \<^verbatim>\<open>"frozenset"\<close> that has no
  \<^verbatim>\<open>"_value"\<close> stands where \<^verbatim>\<open>StorageFormat.to_working_format\<close> visits the document,
  the conversion of that mapping raises \<^verbatim>\<open>KeyError\<close> and the conversion of the whole
  document raises: no set, empty or not, is returned.
\<close>

theorem C3_missing_value_raises:
  assumes "m \<in> set (visited d)" and "missing_value m"
  shows "StorageFormat_to_working_format ord m = Inl KeyError \<and>
         (\<exists>e. StorageFormat_to_working_format ord d = Inl e)"
  using assms missing_value_KeyError visited_raises by blast

theorem C3_missing_value_raises_witness:
  "PDict [(K_TYPE, PStr (ustr ''frozenset''))]
     \<in> set (visited (PDict [(KStr (ustr ''a''), PList [PInt 1, PDict [(K_TYPE, PStr (ustr ''frozenset''))]])])) \<and>
   missing_value (PDict [(K_TYPE, PStr (ustr ''frozenset''))]) \<and>
   StorageFormat_to_working_format id (PDict [(K_TYPE, PStr (ustr ''frozenset''))]) = Inl KeyError \<and>
   (\<exists>e. StorageFormat_to_working_format id
       (PDict [(KStr (ustr ''a''), PList [PInt 1, PDict [(K_TYPE, PStr (ustr ''frozenset''))]])]) = Inl e)"
proof -
  have v: "PDict [(K_TYPE, PStr (ustr ''frozenset''))]
     \<in> set (visited (PDict [(KStr (ustr ''a''), PList [PInt 1, PDict [(K_TYPE, PStr (ustr ''frozenset''))]])]))"
    by (simp add: K_TYPE_def K_VALUE_def ustr_def set_tagged_def)
  have m: "missing_value (PDict [(K_TYPE, PStr (ustr ''frozenset''))])"
    by (simp add: K_TYPE_def K_VALUE_def ustr_def set_tagged_def)
  from C3_missing_value_raises [OF v m, of id] v m show ?thesis by blast
qed

subsection \<open>C7: the hash of an instance is best effort\<close>

text \<open>
  C7: on every Object-stage document, \<^verbatim>\<open>ObjFormat.to_raw_format\<close> returns, and returns
  what its description says. Every instance met, whether it is the document, a field of
  another instance, a value of a mapping or an element of a list or of a set, is
  replaced by a mapping of its tag and its encoded fields: a \<^verbatim>\<open>hashdict\<close> that carries
  \<^verbatim>\<open>"_hash"\<close> with \<open>hv\<close> when \<^verbatim>\<open>hash(obj)\<close> returns \<open>hv\<close>, and a plain mapping without
  \<^verbatim>\<open>"_hash"\<close>, the same tag and the same encoded fields, when \<^verbatim>\<open>hash(obj)\<close> raises
  \<^verbatim>\<open>TypeError\<close>; that \<^verbatim>\<open>TypeError\<close> reaches no caller.
\<close>

theorem C7_hash_is_best_effort:
  "object_doc d \<Longrightarrow> ObjFormat_to_raw_format ord d = Inr (to_raw_spec ord d)"
  by (rule obj_to_raw_refines)

theorem C7_hash_is_best_effort_witness:
  "object_doc (PList [PObj (ustr ''Report'') None
                        [(KStr (ustr ''author''), PObj (ustr ''Person'') (Some 7)
                                                    [(KStr (ustr ''name''), PStr (ustr ''x''))])]]) \<and>
   ObjFormat_to_raw_format id
     (PList [PObj (ustr ''Report'') None
               [(KStr (ustr ''author''), PObj (ustr ''Person'') (Some 7)
                                           [(KStr (ustr ''name''), PStr (ustr ''x''))])]])
     = Inr (PList [PDict [(K_TYPE, PStr (ustr ''Report'')),
                          (KStr (ustr ''author''),
                           PHashDict [(K_TYPE, PStr (ustr ''Person'')), (K_HASH, PInt 7),
                                      (KStr (ustr ''name''), PStr (ustr ''x''))])]])"
proof -
  let ?d = "PList [PObj (ustr ''Report'') None
                     [(KStr (ustr ''author''), PObj (ustr ''Person'') (Some 7)
                                                 [(KStr (ustr ''name''), PStr (ustr ''x''))])]]"
  have d: "object_doc ?d"
    by (simp add: K_TYPE_def K_HASH_def ustr_def)
  have s: "to_raw_spec id ?d
             = PList [PDict [(K_TYPE, PStr (ustr ''Report'')),
                          (KStr (ustr ''author''),
                           PHashDict [(K_TYPE, PStr (ustr ''Person'')), (K_HASH, PInt 7),
                                      (KStr (ustr ''name''), PStr (ustr ''x''))])]]"
    by simp
  from C7_hash_is_best_effort[OF d, of id] s d show ?thesis by (simp only: simp_thms)
qed

subsection \<open>C9: the registry of types\<close>

text \<open>
  C9, as stated, fails: the module has no operation that registers a type and reports a
  conflict. The registry is one dict comprehension over the subclasses, and of two
  classes of one name the later replaces the earlier without any report.
\<close>

theorem C9_counterexample:
  "serializable_complex_types [(ustr ''Widget'', 1::nat), (ustr ''Widget'', 2)] None =
     ([(ustr ''Widget'', 2)], Some [(ustr ''Widget'', 2)])"
  by (simp add: serializable_complex_types_def dict_of_items_def dict_set_def Let_def)

text \<open>
  C9, amended: the registry is built by inserting every direct subclass under its class
  name. Inserting a name again with the class it already has leaves the registry as it
  is; inserting another class under a name that is present replaces the class and keeps
  the names, so the registry maps a name to the last subclass of that name and no
  conflict is reported; and the registry is built once: every later call returns the
  one the first call built.
\<close>

theorem C9_registry_last_wins:
  "(distinct (map fst r) \<and> map_of r n = Some c \<longrightarrow> dict_set r n c = r) \<and>
   map_of (dict_set r n c') n = Some c' \<and>
   (n \<in> fst ` set r \<longrightarrow> map fst (dict_set r n c') = map fst r) \<and>
   map_of (fst (serializable_complex_types subclasses None)) n = map_of (rev subclasses) n \<and>
   serializable_complex_types later (snd (serializable_complex_types subclasses None))
     = serializable_complex_types subclasses None"
proof -
  have 1: "distinct (map fst r) \<and> map_of r n = Some c \<longrightarrow> dict_set r n c = r"
    by (simp add: dict_set_same)
  have 2: "map_of (dict_set r n c') n = Some c'" by (simp add: map_of_dict_set)
  have 3: "n \<in> fst ` set r \<longrightarrow> map fst (dict_set r n c') = map fst r"
    by (simp add: map_fst_dict_set)
  have 4: "map_of (fst (serializable_complex_types subclasses None)) n = map_of (rev subclasses) n"
    by (simp add: serializable_complex_types_def Let_def map_of_dict_of_items)
  have 5: "serializable_complex_types later (snd (serializable_complex_types subclasses None))
     = serializable_complex_types subclasses None"
    by (simp add: serializable_complex_types_def Let_def)
  from 1 2 3 4 5 show ?thesis by blast
qed

theorem C9_registry_last_wins_witness:
  "distinct (map fst [(ustr ''Widget'', 1::nat)]) \<and> map_of [(ustr ''Widget'', 1::nat)] (ustr ''Widget'') = Some 1 \<and>
   dict_set [(ustr ''Widget'', 1::nat)] (ustr ''Widget'') 1 = [(ustr ''Widget'', 1)] \<and>
   map_of (dict_set [(ustr ''Widget'', 1::nat)] (ustr ''Widget'') 2) (ustr ''Widget'') = Some 2 \<and>
   ustr ''Widget'' \<in> fst ` set [(ustr ''Widget'', 1::nat)] \<and>
   map fst (dict_set [(ustr ''Widget'', 1::nat)] (ustr ''Widget'') 2) = map fst [(ustr ''Widget'', 1::nat)] \<and>
   map_of (fst (serializable_complex_types [(ustr ''Widget'', 1::nat), (ustr ''Widget'', 2)] None)) (ustr ''Widget'')
     = Some 2 \<and>
   serializable_complex_types [(ustr ''Gadget'', 3)]
       (snd (serializable_complex_types [(ustr ''Widget'', 1::nat), (ustr ''Widget'', 2)] None))
     = serializable_complex_types [(ustr ''Widget'', 1::nat), (ustr ''Widget'', 2)] None"
  using C9_registry_last_wins[of "[(ustr ''Widget'', 1::nat)]" "ustr ''Widget''" 1 2
      "[(ustr ''Widget'', 1::nat), (ustr ''Widget'', 2)]" "[(ustr ''Gadget'', 3)]"]
  by simp

subsection \<open>C10: the JSON view of a stored document\<close>

text \<open>
  C10: on every Storage-stage document \<^verbatim>\<open>StorageFormat.to_json_mapping\<close> returns, and
  returns what its description says (\<open>json_spec\<close>): an encoded set becomes the list of
  its converted elements, an encoded path its \<^verbatim>\<open>"_value"\<close> string, any other mapping
  has the dots of its keys restored and \<^verbatim>\<open>"_hash"\<close> removed, a date becomes its string
  form and the other scalars stay.
\<close>

theorem C10_to_json_mapping:
  "storage_doc d \<Longrightarrow> StorageFormat_to_json_mapping d = Inr (json_spec d)"
  by (rule json_refines)

theorem C10_to_json_mapping_witness:
  "storage_doc (PDict
      [(KStr (ustr ''a'' @ [FULLWIDTH_DOT] @ ustr ''b''),
          PDict [(K_TYPE, PStr (ustr ''set'')), (K_VALUE, PList [PInt 1, PInt 2])]),
       (KStr (ustr ''p''), PDict [(K_TYPE, PStr (ustr ''Path'')), (K_VALUE, PStr (ustr ''/x''))]),
       (K_HASH, PInt 5),
       (KStr (ustr ''d''), PDate (ustr ''2020-01-01''))]) \<and>
   StorageFormat_to_json_mapping (PDict
      [(KStr (ustr ''a'' @ [FULLWIDTH_DOT] @ ustr ''b''),
          PDict [(K_TYPE, PStr (ustr ''set'')), (K_VALUE, PList [PInt 1, PInt 2])]),
       (KStr (ustr ''p''), PDict [(K_TYPE, PStr (ustr ''Path'')), (K_VALUE, PStr (ustr ''/x''))]),
       (K_HASH, PInt 5),
       (KStr (ustr ''d''), PDate (ustr ''2020-01-01''))])
   = Inr (PDict
      [(KStr (ustr ''a.b''), PList [PInt 1, PInt 2]),
       (KStr (ustr ''p''), PStr (ustr ''/x'')),
       (KStr (ustr ''d''), PStr (ustr ''2020-01-01''))])"
proof -
  let ?d = "PDict
      [(KStr (ustr ''a'' @ [FULLWIDTH_DOT] @ ustr ''b''),
          PDict [(K_TYPE, PStr (ustr ''set'')), (K_VALUE, PList [PInt 1, PInt 2])]),
       (KStr (ustr ''p''), PDict [(K_TYPE, PStr (ustr ''Path'')), (K_VALUE, PStr (ustr ''/x''))]),
       (K_HASH, PInt 5),
       (KStr (ustr ''d''), PDate (ustr ''2020-01-01''))]"
  have s: "storage_doc ?d"
    by (simp add: set_tagged_def path_tagged_def K_TYPE_def K_VALUE_def K_HASH_def ustr_def
        DOT_def FULLWIDTH_DOT_def)
  have j: "json_spec ?d = PDict
      [(KStr (ustr ''a.b''), PList [PInt 1, PInt 2]),
       (KStr (ustr ''p''), PStr (ustr ''/x'')),
       (KStr (ustr ''d''), PStr (ustr ''2020-01-01''))]"
    by (simp add: set_tagged_def path_tagged_def K_TYPE_def K_VALUE_def K_HASH_def ustr_def
        DOT_def FULLWIDTH_DOT_def replace_def)
  have r: "StorageFormat_to_json_mapping ?d = Inr (json_spec ?d)"
    using s by (rule C10_to_json_mapping)
  show ?thesis by (simp only: s r j simp_thms)
qed

subsection \<open>C8: Symbol keys\<close>

text \<open>
  C8: \<^verbatim>\<open>store\<close> keeps the places of a document whose mappings have keys with distinct
  stored forms, and wherever a mapping, at any depth, has a \<^verbatim>\<open>Symbol\<close> as key, the stored
  mapping has at that place the string of its label between double underscores. No key
  of a stored document is a \<^verbatim>\<open>Symbol\<close>, and no key of what \<^verbatim>\<open>load\<close> returns for it is one.
  For a document that \<^verbatim>\<open>load\<close> reads back, \<^verbatim>\<open>load(store(w))\<close> returns and is equal to \<open>w\<close>
  with every \<^verbatim>\<open>Symbol\<close> key, at any depth, replaced by its bracketed string: the string
  survives and the \<^verbatim>\<open>Symbol\<close> is not rebuilt.
\<close>

theorem C8_symbol_keys:
  "(stored_keys_distinct w \<longrightarrow> symbols_bracketed w (store w)) \<and>
   str_keys (store w) \<and>
   (set_order ord \<and> load ord (store w) = Inr w' \<longrightarrow> str_keys w') \<and>
   (set_order ord \<and> symbol_doc w \<longrightarrow>
      (\<exists>w''. load ord (store w) = Inr w'' \<and> py_eq w'' (symbols_as_strings w)))"
  using store_brackets_symbols[of w] str_keys_store[of w] str_keys_load[of ord "store w" w']
    load_store_symbols[of ord w]
  by (simp add: store_def load_def)

theorem C8_symbol_keys_witness:
  "set_order id \<and>
   stored_keys_distinct (PDict [(KStr (ustr ''a''), PDict [(KSym (ustr ''delete''), PList [PInt 1])])]) \<and>
   symbol_doc (PDict [(KStr (ustr ''a''), PDict [(KSym (ustr ''delete''), PList [PInt 1])])]) \<and>
   store (PDict [(KStr (ustr ''a''), PDict [(KSym (ustr ''delete''), PList [PInt 1])])])
     = PDict [(KStr (ustr ''a''), PDict [(KStr (ustr ''__delete__''), PList [PInt 1])])] \<and>
   symbols_bracketed
     (PDict [(KStr (ustr ''a''), PDict [(KSym (ustr ''delete''), PList [PInt 1])])])
     (PDict [(KStr (ustr ''a''), PDict [(KStr (ustr ''__delete__''), PList [PInt 1])])]) \<and>
   \<not> symbols_bracketed
     (PDict [(KStr (ustr ''a''), PDict [(KSym (ustr ''delete''), PList [PInt 1])])])
     (PDict [(KStr (ustr ''a''), PDict [(KStr (ustr ''$delete''), PList [PInt 1])])]) \<and>
   load id (store (PDict [(KStr (ustr ''a''), PDict [(KSym (ustr ''delete''), PList [PInt 1])])]))
     = Inr (PDict [(KStr (ustr ''a''), PDict [(KStr (ustr ''__delete__''), PList [PInt 1])])]) \<and>
   symbols_as_strings (PDict [(KStr (ustr ''a''), PDict [(KSym (ustr ''delete''), PList [PInt 1])])])
     = PDict [(KStr (ustr ''a''), PDict [(KStr (ustr ''__delete__''), PList [PInt 1])])] \<and>
   py_eq (PDict [(KStr (ustr ''a''), PDict [(KStr (ustr ''__delete__''), PList [PInt 1])])])
         (symbols_as_strings
            (PDict [(KStr (ustr ''a''), PDict [(KSym (ustr ''delete''), PList [PInt 1])])])) \<and>
   str_keys (PDict [(KStr (ustr ''a''), PDict [(KStr (ustr ''__delete__''), PList [PInt 1])])]) \<and>
   \<not> str_keys (PDict [(KStr (ustr ''a''), PDict [(KSym (ustr ''delete''), PList [PInt 1])])])"
proof -
  let ?w = "PDict [(KStr (ustr ''a''), PDict [(KSym (ustr ''delete''), PList [PInt 1])])]"
  let ?s = "PDict [(KStr (ustr ''a''), PDict [(KStr (ustr ''__delete__''), PList [PInt 1])])]"
  let ?m = "PDict [(KStr (ustr ''a''), PDict [(KStr (ustr ''$delete''), PList [PInt 1])])]"
  have o: "set_order id" by (simp add: set_order_def)
  have d: "stored_keys_distinct ?w" by (simp add: ustr_def DOT_def)
  have sd: "symbol_doc ?w"
    by (simp add: set_tagged_def K_TYPE_def ustr_def DOT_def FULLWIDTH_DOT_def)
  have s: "store ?w = ?s"
    by (simp add: store_def dict_of_items_def dict_set_def ustr_def DOT_def)
  have l: "load id ?s = Inr ?s"
    by (simp add: load_def dict_of_items_def dict_set_def ustr_def K_TYPE_def K_VALUE_def
        replace_def FULLWIDTH_DOT_def DOT_def)
  from l s have l': "load id (store ?w) = Inr ?s" by simp
  have a: "symbols_as_strings ?w = ?s" by (simp add: bracketed_def ustr_def)
  have n: "\<not> symbols_bracketed ?w ?m" by (simp add: bracketed_def ustr_def)
  have k: "\<not> str_keys ?w" by simp
  note c8 = C8_symbol_keys[of ?w id ?s]
  from c8 d s have b: "symbols_bracketed ?w ?s" by simp
  from c8 o l' have k': "str_keys ?s" by blast
  from c8 o sd obtain w'' where "load id (store ?w) = Inr w''" "py_eq w'' (symbols_as_strings ?w)"
    by blast
  with l' have p: "py_eq ?s (symbols_as_strings ?w)" by simp
  from o d sd s b n l' a p k' k show ?thesis by (simp only: simp_thms)
qed

subsection \<open>C4: unknown tags at the Object stage\<close>

text \<open>
  C4 says that \<^verbatim>\<open>RawFormat.to_obj_format\<close> leaves a mapping with an unknown tag as a plain
  mapping and raises nothing. The code does so in a list or a mapping, but returns a plain
  \<^verbatim>\<open>dict\<close> where the Raw stage had a \<^verbatim>\<open>hashdict\<close>; inside a set the \<^verbatim>\<open>dict\<close> cannot be
  hashed and \<^verbatim>\<open>set(map(walk, obj))\<close> raises \<^verbatim>\<open>TypeError\<close>. The sibling
  \<^verbatim>\<open>RawFormat.to_working_format\<close> keeps the \<^verbatim>\<open>hashdict\<close> and returns the set.
\<close>

theorem C4_unknown_tag_in_set_raises:
  "RawFormat_to_obj_format [] id
     (PSet [PHashDict [(K_TYPE, PStr (ustr ''Unknown'')), (K_HASH, PInt 1)]]) = Inl TypeError \<and>
   RawFormat_to_obj_format [] id
     (PList [PHashDict [(K_TYPE, PStr (ustr ''Unknown'')), (K_HASH, PInt 1)]])
     = Inr (PList [PDict [(K_TYPE, PStr (ustr ''Unknown'')), (K_HASH, PInt 1)]]) \<and>
   RawFormat_to_working_format (\<lambda>p. 0) id
     (PSet [PHashDict [(K_TYPE, PStr (ustr ''Unknown'')), (K_HASH, PInt 1)]])
     = Inr (PSet [PHashDict [(K_TYPE, PStr (ustr ''Unknown'')), (K_HASH, PInt 1)]])"
  by (simp add: py_set_map_def dedup_def K_TYPE_def K_HASH_def ustr_def)

subsection \<open>C6: paths between the Working and the Raw stage\<close>

text \<open>
  C6 says that \<^verbatim>\<open>WorkingFormat.to_raw_format\<close> turns a mapping tagged \<^verbatim>\<open>"Path"\<close> into a
  path and recurses elsewhere, a set staying a set. The code does so for a set of encoded
  paths, but a hash-carrying mapping with another tag comes back as a plain \<^verbatim>\<open>dict\<close>,
  and \<^verbatim>\<open>set(map(walk, obj))\<close> raises \<^verbatim>\<open>TypeError\<close> on the set that holds it; the
  inverse conversion \<^verbatim>\<open>RawFormat.to_working_format\<close> returns that very set.
\<close>

theorem C6_tagged_mapping_in_set_raises:
  "WorkingFormat_to_raw_format id id
     (PSet [PHashDict [(K_TYPE, PStr (ustr ''ProtectionProfile'')), (K_HASH, PInt 1)]])
     = Inl TypeError \<and>
   WorkingFormat_to_raw_format id id
     (PSet [PHashDict [(K_TYPE, PStr (ustr ''Path'')), (K_VALUE, PStr (ustr ''/x'')), (K_HASH, PInt 1)]])
     = Inr (PSet [PPath (ustr ''/x'')]) \<and>
   RawFormat_to_working_format (\<lambda>p. 0) id
     (PSet [PHashDict [(K_TYPE, PStr (ustr ''ProtectionProfile'')), (K_HASH, PInt 1)]])
     = Inr (PSet [PHashDict [(K_TYPE, PStr (ustr ''ProtectionProfile'')), (K_HASH, PInt 1)]])"
  by (simp add: py_set_map_def dedup_def K_TYPE_def K_HASH_def K_VALUE_def ustr_def)

subsection \<open>C2: storing a Working document and loading it again\<close>

text \<open>
  C2 says that \<^verbatim>\<open>load(store(w))\<close> is equal to \<open>w\<close> and that a set comes back as a set.
  \<^verbatim>\<open>RawFormat.to_working_format\<close> puts a path into a Working-stage set as a \<^verbatim>\<open>hashdict\<close>,
  and \<^verbatim>\<open>store\<close> writes that set as a stored document. \<^verbatim>\<open>load\<close> rebuilds the element as a
  plain \<^verbatim>\<open>dict\<close>, which cannot be hashed, and \<^verbatim>\<open>set(walk(obj["_value"]))\<close> raises
  \<^verbatim>\<open>TypeError\<close>: the set does not come back. In a list the same mapping is read back
  and is equal to the one stored.
\<close>

theorem C2_set_of_mappings_raises:
  "RawFormat_to_working_format (\<lambda>p. 1) id (PSet [PPath (ustr ''/x'')])
     = Inr (PSet [PHashDict [(K_TYPE, PStr (ustr ''Path'')), (K_VALUE, PStr (ustr ''/x'')),
                             (K_HASH, PInt 1)]]) \<and>
   store (PSet [PHashDict [(K_TYPE, PStr (ustr ''Path'')), (K_VALUE, PStr (ustr ''/x'')),
                           (K_HASH, PInt 1)]])
     = PDict [(K_TYPE, PStr (ustr ''set'')),
              (K_VALUE, PList [PDict [(K_TYPE, PStr (ustr ''Path'')), (K_VALUE, PStr (ustr ''/x'')),
                                      (K_HASH, PInt 1)]])] \<and>
   storage_doc (store (PSet [PHashDict [(K_TYPE, PStr (ustr ''Path'')),
                                        (K_VALUE, PStr (ustr ''/x'')), (K_HASH, PInt 1)]])) \<and>
   load id (store (PSet [PHashDict [(K_TYPE, PStr (ustr ''Path'')), (K_VALUE, PStr (ustr ''/x'')),
                                    (K_HASH, PInt 1)]])) = Inl TypeError \<and>
   load id (store (PList [PHashDict [(K_TYPE, PStr (ustr ''Path'')), (K_VALUE, PStr (ustr ''/x'')),
                                     (K_HASH, PInt 1)]]))
     = Inr (PList [PDict [(K_TYPE, PStr (ustr ''Path'')), (K_VALUE, PStr (ustr ''/x'')),
                          (K_HASH, PInt 1)]]) \<and>
   py_eq (PList [PDict [(K_TYPE, PStr (ustr ''Path'')), (K_VALUE, PStr (ustr ''/x'')),
                        (K_HASH, PInt 1)]])
         (PList [PHashDict [(K_TYPE, PStr (ustr ''Path'')), (K_VALUE, PStr (ustr ''/x'')),
                            (K_HASH, PInt 1)]])"
  by (simp add: load_def store_def py_set_map_def py_set_def dedup_def dict_of_items_def
      dict_set_def set_tagged_def path_tagged_def replace_def
      K_TYPE_def K_VALUE_def K_HASH_def ustr_def DOT_def FULLWIDTH_DOT_def)

subsection \<open>C1: loading a stored document and storing it again\<close>

text \<open>
  C1, as stated, fails: \<^verbatim>\<open>load\<close> builds a set from the list under \<^verbatim>\<open>"_value"\<close>, which
  keeps one of two equal elements, and \<^verbatim>\<open>store\<close> lists what the set holds.
\<close>

theorem C1_counterexample:
  "storage_doc (PDict [(K_TYPE, PStr (ustr ''set'')), (K_VALUE, PList [PInt 1, PInt 1])]) \<and>
   load id (PDict [(K_TYPE, PStr (ustr ''set'')), (K_VALUE, PList [PInt 1, PInt 1])])
     = Inr (PSet [PInt 1]) \<and>
   store (PSet [PInt 1]) = PDict [(K_TYPE, PStr (ustr ''set'')), (K_VALUE, PList [PInt 1])] \<and>
   \<not> py_eq (PDict [(K_TYPE, PStr (ustr ''set'')), (K_VALUE, PList [PInt 1])])
            (PDict [(K_TYPE, PStr (ustr ''set'')), (K_VALUE, PList [PInt 1, PInt 1])])"
  by (simp add: load_def store_def set_tagged_def py_set_def dedup_def K_TYPE_def K_VALUE_def
      ustr_def DOT_def)

text \<open>
  C1, amended: for every Storage-stage document in which each encoded set lists, under
  \<^verbatim>\<open>"_value"\<close>, hashable elements without duplicates and in the order in which the set
  built from them iterates, \<^verbatim>\<open>load\<close> returns and \<^verbatim>\<open>store(load(d))\<close> is equal to \<open>d\<close>.
\<close>

theorem C1_store_load:
  "storage_doc d \<Longrightarrow> canonical ord d \<Longrightarrow> \<exists>w. load ord d = Inr w \<and> py_eq (store w) d"
  using store_load_roundtrip[of d ord] by (simp add: load_def store_def)

theorem C1_store_load_witness:
  "storage_doc (PDict [(KStr (ustr ''a'' @ [FULLWIDTH_DOT] @ ustr ''b''),
                         PDict [(K_VALUE, PList [PInt 1, PInt 2]), (K_TYPE, PStr (ustr ''set''))]),
                       (KStr (ustr ''n''), PInt 5)]) \<and>
   canonical id (PDict [(KStr (ustr ''a'' @ [FULLWIDTH_DOT] @ ustr ''b''),
                         PDict [(K_VALUE, PList [PInt 1, PInt 2]), (K_TYPE, PStr (ustr ''set''))]),
                       (KStr (ustr ''n''), PInt 5)]) \<and>
   load id (PDict [(KStr (ustr ''a'' @ [FULLWIDTH_DOT] @ ustr ''b''),
                         PDict [(K_VALUE, PList [PInt 1, PInt 2]), (K_TYPE, PStr (ustr ''set''))]),
                       (KStr (ustr ''n''), PInt 5)])
     = Inr (PDict [(KStr (ustr ''a.b''), PSet [PInt 1, PInt 2]), (KStr (ustr ''n''), PInt 5)]) \<and>
   py_eq (store (PDict [(KStr (ustr ''a.b''), PSet [PInt 1, PInt 2]), (KStr (ustr ''n''), PInt 5)]))
         (PDict [(KStr (ustr ''a'' @ [FULLWIDTH_DOT] @ ustr ''b''),
                         PDict [(K_VALUE, PList [PInt 1, PInt 2]), (K_TYPE, PStr (ustr ''set''))]),
                       (KStr (ustr ''n''), PInt 5)])"
proof -
  let ?d = "PDict [(KStr (ustr ''a'' @ [FULLWIDTH_DOT] @ ustr ''b''),
                         PDict [(K_VALUE, PList [PInt 1, PInt 2]), (K_TYPE, PStr (ustr ''set''))]),
                       (KStr (ustr ''n''), PInt 5)]"
  let ?w = "PDict [(KStr (ustr ''a.b''), PSet [PInt 1, PInt 2]), (KStr (ustr ''n''), PInt 5)]"
  have s: "storage_doc ?d"
    by (simp add: set_tagged_def path_tagged_def K_TYPE_def K_VALUE_def ustr_def DOT_def
        FULLWIDTH_DOT_def)
  have c: "canonical id ?d"
    by (simp add: set_tagged_def K_TYPE_def K_VALUE_def ustr_def DOT_def FULLWIDTH_DOT_def
        dedup_def)
  have l: "load id ?d = Inr ?w"
    by (simp add: load_def set_tagged_def K_TYPE_def K_VALUE_def ustr_def DOT_def
        FULLWIDTH_DOT_def dedup_def py_set_def replace_def dict_of_items_def dict_set_def)
  from C1_store_load[OF s c] obtain w' where "load id ?d = Inr w'" "py_eq (store w') ?d"
    by blast
  with l have e: "py_eq (store ?w) ?d" by simp
  from s c l e show ?thesis by blast
qed


subsection \<open>C5: an instance through Object, Raw and Object again\<close>

text \<open>
  C5, as stated, fails: the registry holds the direct subclasses only, and a mapping
  whose tag is not registered is returned as a mapping. An instance \<open>x\<close> of the
  registered type \<^verbatim>\<open>W\<close> whose field holds an instance of the unregistered type \<^verbatim>\<open>Sub\<close>
  comes back with the mapping \<^verbatim>\<open>{"_type": "Sub"}\<close> in that field, which is not equal to
  \<open>x\<close>.
\<close>

theorem C5_counterexample:
  "map_of [(ustr ''W'', \<lambda>kvs. Inr (PObj (ustr ''W'') None kvs))] (ustr ''W'') \<noteq> None \<and>
   ObjFormat_to_raw_format id
       (PObj (ustr ''W'') None [(KStr (ustr ''inner''), PObj (ustr ''Sub'') None [])])
     = Inr (PDict [(K_TYPE, PStr (ustr ''W'')),
                   (KStr (ustr ''inner''), PDict [(K_TYPE, PStr (ustr ''Sub''))])]) \<and>
   RawFormat_to_obj_format [(ustr ''W'', \<lambda>kvs. Inr (PObj (ustr ''W'') None kvs))] id
       (PDict [(K_TYPE, PStr (ustr ''W'')),
               (KStr (ustr ''inner''), PDict [(K_TYPE, PStr (ustr ''Sub''))])])
     = Inr (PObj (ustr ''W'') None [(KStr (ustr ''inner''), PDict [(K_TYPE, PStr (ustr ''Sub''))])]) \<and>
   \<not> py_eq (PObj (ustr ''W'') None [(KStr (ustr ''inner''), PDict [(K_TYPE, PStr (ustr ''Sub''))])])
            (PObj (ustr ''W'') None [(KStr (ustr ''inner''), PObj (ustr ''Sub'') None [])])"
  by (simp add: Let_def dict_of_items_def dict_set_def dict_pop_def K_TYPE_def K_HASH_def ustr_def)

text \<open>
  C5, amended: for every Object-stage document in which every instance has a registered
  tag whose decoder rebuilds it from items equal to those of its \<^verbatim>\<open>to_dict()\<close>, no
  \<^verbatim>\<open>to_dict()\<close> has the key \<^verbatim>\<open>"_type"\<close> or \<^verbatim>\<open>"_hash"\<close>, no plain mapping carries a
  registered tag, the elements of every set are hashable and there is no \<^verbatim>\<open>hashdict\<close>,
  \<^verbatim>\<open>ObjFormat.to_raw_format\<close> returns, \<^verbatim>\<open>RawFormat.to_obj_format\<close> returns on its result,
  and the document obtained is equal to the first one: every instance is equal to the
  one at its place, whatever the order in which the sets iterate.
\<close>

theorem C5_obj_raw_obj:
  assumes "set_order ord" and "obj_doc sct d"
  shows "\<exists>r d'. ObjFormat_to_raw_format ord d = Inr r \<and>
                RawFormat_to_obj_format sct ord r = Inr d' \<and> py_eq d' d"
proof -
  from obj_to_raw_total[OF assms(2), of ord] obtain r where r: "ObjFormat_to_raw_format ord d = Inr r"
    by blast
  then have "projr (ObjFormat_to_raw_format ord d) = r" by (simp only: sum.sel)
  with obj_roundtrip[OF assms, of] obtain d' where
    "RawFormat_to_obj_format sct ord r = Inr d'" "py_eq d' d" by blast
  with r show ?thesis by blast
qed

theorem C5_obj_raw_obj_witness:
  "set_order rev \<and>
   obj_doc [(ustr ''Widget'', \<lambda>kvs. Inr (PObj (ustr ''Widget'') (Some 7) kvs))]
     (PDict [(KStr (ustr ''w''),
              PSet [PObj (ustr ''Widget'') (Some 7) [(KStr (ustr ''n''), PInt 3)], PInt 1])]) \<and>
   ObjFormat_to_raw_format rev
     (PDict [(KStr (ustr ''w''),
              PSet [PObj (ustr ''Widget'') (Some 7) [(KStr (ustr ''n''), PInt 3)], PInt 1])])
     = Inr (PDict [(KStr (ustr ''w''),
              PSet [PInt 1, PHashDict [(K_TYPE, PStr (ustr ''Widget'')), (K_HASH, PInt 7),
                                       (KStr (ustr ''n''), PInt 3)]])]) \<and>
   RawFormat_to_obj_format [(ustr ''Widget'', \<lambda>kvs. Inr (PObj (ustr ''Widget'') (Some 7) kvs))] rev
     (PDict [(KStr (ustr ''w''),
              PSet [PInt 1, PHashDict [(K_TYPE, PStr (ustr ''Widget'')), (K_HASH, PInt 7),
                                       (KStr (ustr ''n''), PInt 3)]])])
     = Inr (PDict [(KStr (ustr ''w''),
              PSet [PObj (ustr ''Widget'') (Some 7) [(KStr (ustr ''n''), PInt 3)], PInt 1])]) \<and>
   py_eq (PDict [(KStr (ustr ''w''),
              PSet [PObj (ustr ''Widget'') (Some 7) [(KStr (ustr ''n''), PInt 3)], PInt 1])])
         (PDict [(KStr (ustr ''w''),
              PSet [PObj (ustr ''Widget'') (Some 7) [(KStr (ustr ''n''), PInt 3)], PInt 1])])"
proof -
  let ?sct = "[(ustr ''Widget'', \<lambda>kvs. Inr (PObj (ustr ''Widget'') (Some 7) kvs))]"
  let ?d = "PDict [(KStr (ustr ''w''),
              PSet [PObj (ustr ''Widget'') (Some 7) [(KStr (ustr ''n''), PInt 3)], PInt 1])]"
  let ?r = "PDict [(KStr (ustr ''w''),
              PSet [PInt 1, PHashDict [(K_TYPE, PStr (ustr ''Widget'')), (K_HASH, PInt 7),
                                       (KStr (ustr ''n''), PInt 3)]])]"
  have o: "set_order rev" by (simp add: set_order_def)
  have c: "decodes (\<lambda>kvs. Inr (PObj (ustr ''Widget'') (Some 7) kvs)) (ustr ''Widget'') (Some 7)
             [(KStr (ustr ''n''), PInt 3)]"
    by (rule decodes_canonical)
  have k: "K_TYPE \<noteq> KStr (ustr ''n'')" "K_HASH \<noteq> KStr (ustr ''n'')"
    "K_TYPE \<noteq> KStr (ustr ''w'')"
    by (simp_all add: K_TYPE_def K_HASH_def ustr_def)
  have d: "obj_doc ?sct ?d"
    using c k by simp
  have r: "ObjFormat_to_raw_format rev ?d = Inr ?r"
    by (simp add: Let_def py_set_map_def dedup_def dict_of_items_def dict_set_def
        K_TYPE_def K_HASH_def ustr_def)
  have t: "RawFormat_to_obj_format ?sct rev ?r = Inr ?d"
    by (simp add: py_set_map_def dedup_def dict_pop_def K_TYPE_def K_HASH_def ustr_def)
  from C5_obj_raw_obj[OF o d] obtain r' d' where
    "ObjFormat_to_raw_format rev ?d = Inr r'" "RawFormat_to_obj_format ?sct rev r' = Inr d'"
    "py_eq d' ?d" by blast
  with r t have "py_eq ?d ?d" by (simp only: sum.inject)
  with o d r t show ?thesis by (simp only: simp_thms)
qed
end
